theory Spec2Isabelle
  imports Complex_Main
begin

section \<open>Mesh refinement (include/Refine.h): data model\<close>

text \<open>
  The class \<open>Refine<real_t, index_t>\<close> is embedded for one worker: \<open>get_tid()\<close> is 0 and
  \<open>nthreads\<close> is 1, which is what the code does when it is built without OpenMP.  The
  number of partitions \<open>nprocs\<close> and the \<open>rank\<close> stay parameters.

  \<open>index_t\<close> is \<open>int\<close> in the source.  The values stored are vertex numbers, the mark
  \<open>-1\<close> and the mark \<open>std::numeric_limits<index_t>::max()\<close>.

  \<open>real_t\<close> is a type variable \<open>'r\<close>: the arithmetic of the source is written with the
  operations of the syntactic classes \<open>zero\<close>, \<open>one\<close>, \<open>plus\<close>, \<open>minus\<close>, \<open>times\<close>,
  \<open>inverse\<close> and \<open>ord\<close>, which assume no law, so that a theorem holds for any
  arithmetic, floating point included.
\<close>

type_synonym index_t = int

definition index_max :: index_t where
  "index_max = 2147483647"

text \<open>
  A read or write outside a vector, a failed \<open>assert\<close> and the use of a field that was
  never assigned end the run.
\<close>

datatype fault = OutOfBounds | AssertionFailed | Uninitialised

record 'r mesh =
  ndims :: nat
  coords :: "'r list"
  metric :: "'r list"
  ENList :: "index_t list"
  NNList :: "index_t list list"
  NEList :: "index_t list list"
  recv :: "index_t list list"
  send :: "index_t list list"
  recv_halo :: "index_t set"
  send_halo :: "index_t set"

definition nloc :: "'r mesh \<Rightarrow> nat" where
  "nloc m = (if ndims m = 2 then 3 else 4)"

section \<open>The scan of a neighbour list\<close>

text \<open>
  \<open>while(_mesh->NNList[n0][pos] != n1) ++pos;\<close>
  The loop has no bound of its own.  A read at a position past the end of the list is
  the fault \<open>OutOfBounds\<close>.
\<close>

function scan :: "index_t list \<Rightarrow> index_t \<Rightarrow> nat \<Rightarrow> fault + nat" where
  "scan nn n1 pos =
     (if length nn \<le> pos then Inl OutOfBounds
      else if nn ! pos \<noteq> n1 then scan nn n1 (pos + 1)
      else Inr pos)"
  by pat_completeness auto
termination
  by (relation "measure (\<lambda>(nn, n1, pos). length nn - pos)") auto

declare scan.simps [simp del]

text \<open>
  \<open>mark_edge(n0, n1, refined_edges)\<close>: the end points are ordered by global number, \<open>n1\<close>
  is looked for in \<open>NNList[n0]\<close> and the slot \<open>2*pos\<close> of \<open>refined_edges[n0]\<close> receives
  \<open>index_max\<close>.  \<open>gnn\<close> is the table \<open>lnn2gnn\<close>, read as a function.
\<close>

definition order_by_gnn :: "(index_t \<Rightarrow> index_t) \<Rightarrow> index_t \<Rightarrow> index_t \<Rightarrow> index_t \<times> index_t" where
  "order_by_gnn gnn n0 n1 = (if gnn n0 > gnn n1 then (n1, n0) else (n0, n1))"

definition mark_edge ::
  "'r mesh \<Rightarrow> (index_t \<Rightarrow> index_t) \<Rightarrow> index_t \<Rightarrow> index_t \<Rightarrow> index_t list list
     \<Rightarrow> fault + index_t list list" where
  "mark_edge m gnn n0 n1 refined_edges =
     (case order_by_gnn gnn n0 n1 of (a, b) \<Rightarrow>
        if a < 0 \<or> length (NNList m) \<le> nat a then Inl OutOfBounds
        else (case scan (NNList m ! nat a) b 0 of
                Inl e \<Rightarrow> Inl e
              | Inr pos \<Rightarrow>
                  if length refined_edges \<le> nat a \<or> length (refined_edges ! nat a) \<le> 2 * pos
                  then Inl OutOfBounds
                  else Inr (refined_edges[nat a := (refined_edges ! nat a)[2 * pos := index_max]])))"

section \<open>What refine takes from outside this file\<close>

text \<open>
  Refine.h includes Mesh.h and ElementProperty.h, which are not part of the sources at
  hand.  What refine calls there and cannot be read off the call itself is a field of the
  record \<open>ext\<close>; no theorem assumes anything about these fields unless it says so.

  \<^item> \<open>calc_edge_length\<close>: \<open>_mesh->calc_edge_length(n0, n1)\<close>, which reads the mesh.
  \<^item> \<open>property_length\<close>, \<open>property_area\<close>, \<open>property_volume\<close>: the members of
    \<open>ElementProperty\<close>.
  \<^item> \<open>sqrt_r\<close>, \<open>isnan\<close>: the library functions \<open>sqrt\<close> and \<open>isnan\<close>.
  \<^item> \<open>mpi_scan\<close>: the result of \<open>MPI_Scan\<close> (sum of the vertex counts of the ranks up to
    this one) for the local count; \<open>mpi_allreduce k x\<close>: the result of the \<open>k\<close>-th
    \<open>MPI_Allreduce\<close> (sum over all ranks) when this rank contributes \<open>x\<close>;
    \<open>halo_value v\<close>: the value the halo exchange delivers for the vertex \<open>v\<close>.
  \<^item> \<open>past_end\<close>: what a read of \<open>lnn2gnn\<close> outside the vector returns.  C++ leaves such
    a read undefined; the vector is never written outside its bounds here.
  \<^item> \<open>adjacency_NN\<close>, \<open>adjacency_NE\<close>: the lists \<open>_mesh->create_adjancy()\<close> builds.
\<close>

record 'r ext =
  calc_edge_length :: "'r mesh \<Rightarrow> index_t \<Rightarrow> index_t \<Rightarrow> 'r"
  property_length :: "'r list \<Rightarrow> 'r list \<Rightarrow> 'r list \<Rightarrow> 'r"
  property_area :: "'r list \<Rightarrow> 'r list \<Rightarrow> 'r list \<Rightarrow> 'r"
  property_volume :: "'r list \<Rightarrow> 'r list \<Rightarrow> 'r list \<Rightarrow> 'r list \<Rightarrow> 'r"
  sqrt_r :: "'r \<Rightarrow> 'r"
  isnan :: "'r \<Rightarrow> bool"
  mpi_scan :: "nat \<Rightarrow> int"
  mpi_allreduce :: "nat \<Rightarrow> int \<Rightarrow> int"
  halo_value :: "index_t \<Rightarrow> index_t"
  past_end :: "index_t \<Rightarrow> index_t"
  adjacency_NN :: "'r mesh \<Rightarrow> index_t list list"
  adjacency_NE :: "'r mesh \<Rightarrow> index_t list list"

text \<open>
  Modelled from the spec: \<open>Edge<index_t>\<close> and \<open>DirectedEdge<index_t>\<close> are declared
  outside Refine.h.  An edge is the pair of its end points; \<open>contains\<close> tells whether a
  vertex is an end point; \<open>connected\<close> gives the end point two edges share, or \<open>-1\<close>.  A
  directed edge is a pair of global numbers, "optionally annotated with the LID of the
  vertex inserted on it".
\<close>

type_synonym edge_t = "index_t \<times> index_t"

definition Edge :: "index_t \<Rightarrow> index_t \<Rightarrow> edge_t" where
  "Edge n0 n1 = (n0, n1)"

definition contains :: "edge_t \<Rightarrow> index_t \<Rightarrow> bool" where
  "contains e nid = (nid = fst e \<or> nid = snd e)"

definition connected :: "edge_t \<Rightarrow> edge_t \<Rightarrow> index_t" where
  "connected e f =
     (if fst e = fst f \<or> fst e = snd f then fst e
      else if snd e = fst f \<or> snd e = snd f then snd e
      else - 1)"

record DirectedEdge =
  edge :: "index_t \<times> index_t"
  id_e :: "index_t option"

text \<open>
  Modelled from the spec: the mesh container is declared in Mesh.h.  "Coordinate/metric
  arrays ... have length equal to the current vertex count" times the dimension, an element
  is "an ordered tuple of LIDs of length nloc", and "an erased element is marked by setting
  its first LID to a negative sentinel".  \<open>get_coords\<close> and \<open>get_metric\<close> return a pointer
  into the array: the model gives the rest of the array from that position on.
\<close>

definition get_number_nodes :: "'r mesh \<Rightarrow> nat" where
  "get_number_nodes m = length (coords m) div ndims m"

definition get_number_elements :: "'r mesh \<Rightarrow> nat" where
  "get_number_elements m = length (ENList m) div nloc m"

definition get_element :: "'r mesh \<Rightarrow> nat \<Rightarrow> index_t list" where
  "get_element m i = take (nloc m) (drop (i * nloc m) (ENList m))"

definition get_coords :: "'r mesh \<Rightarrow> index_t \<Rightarrow> 'r list" where
  "get_coords m n = drop (nat n * ndims m) (coords m)"

definition get_metric :: "'r mesh \<Rightarrow> index_t \<Rightarrow> 'r list" where
  "get_metric m n = drop (nat n * (ndims m * ndims m)) (metric m)"

definition erase_element :: "'r mesh \<Rightarrow> nat \<Rightarrow> 'r mesh" where
  "erase_element m i = m\<lparr>ENList := (ENList m)[i * nloc m := - 1]\<rparr>"

text \<open>
  Modelled from the spec: \<open>get_new_vertex(a, b, refined_edges, lnn2gnn)\<close> gives the "LID of
  new vertex on edge (a,b) or -1".  "For the i-th neighbour u of v, two consecutive slots
  carry (new_vertex_lid, producer_tag)" and "the pair is only populated at the endpoint
  with the lesser GID", so the end points are ordered by global number, the second is
  looked for in the neighbour list of the first, and the slot \<open>2*pos\<close> is returned.
\<close>

definition get_new_vertex ::
  "'r mesh \<Rightarrow> (index_t \<Rightarrow> index_t) \<Rightarrow> index_t \<Rightarrow> index_t \<Rightarrow> index_t list list
     \<Rightarrow> fault + index_t" where
  "get_new_vertex m gnn n0 n1 refined_edges =
     (case order_by_gnn gnn n0 n1 of (a, b) \<Rightarrow>
        if a < 0 \<or> length (NNList m) \<le> nat a then Inl OutOfBounds
        else (case scan (NNList m ! nat a) b 0 of
                Inl e \<Rightarrow> Inl e
              | Inr pos \<Rightarrow>
                  if length refined_edges \<le> nat a \<or> length (refined_edges ! nat a) \<le> 2 * pos
                  then Inl OutOfBounds
                  else Inr (refined_edges ! nat a ! (2 * pos))))"

section \<open>The state of a call of refine\<close>

text \<open>
  The members of the object (\<open>_mesh\<close>, \<open>lnn2gnn\<close>, \<open>gnn2lnn\<close>, \<open>node_owner\<close>, \<open>rank\<close>,
  \<open>nprocs\<close>), the local variables of \<open>refine\<close> that live through its phases, and what has
  been written to \<open>std::cerr\<close>: for each message the values \<open>m0[i]\<close>, \<open>m1[i]\<close> and
  \<open>weight\<close> it prints.
\<close>

record 'r refine_state =
  mesh :: "'r mesh"
  lnn2gnn :: "index_t list"
  gnn2lnn :: "index_t \<Rightarrow> index_t option"
  node_owner :: "int list"
  rank :: int
  nprocs :: nat
  refined_edges :: "index_t list list"
  newVertices :: "DirectedEdge list"
  newCoords :: "'r list"
  newMetric :: "'r list"
  newElements :: "index_t list"
  splitCnt :: nat
  cerr :: "('r \<times> 'r \<times> 'r) list"

definition gnn_at :: "'r ext \<Rightarrow> index_t list \<Rightarrow> index_t \<Rightarrow> index_t" where
  "gnn_at X l i = (if 0 \<le> i \<and> nat i < length l then l ! nat i else past_end X i)"

text \<open>\<open>v.resize(n, x)\<close> and \<open>memcpy(&dst[off], &src[0], cnt * sizeof ...)\<close>.\<close>

definition resize_v :: "nat \<Rightarrow> 'a \<Rightarrow> 'a list \<Rightarrow> 'a list" where
  "resize_v n x v = take n v @ replicate (n - length v) x"

definition memcpy :: "'a list \<Rightarrow> nat \<Rightarrow> 'a list \<Rightarrow> nat \<Rightarrow> fault + 'a list" where
  "memcpy dst off src cnt =
     (if length src < cnt \<or> length dst < off + cnt then Inl OutOfBounds
      else Inr (take off dst @ take cnt src @ drop (off + cnt) dst))"

text \<open>A loop whose body can fault.\<close>

fun fold_f :: "('a \<Rightarrow> 's \<Rightarrow> fault + 's) \<Rightarrow> 'a list \<Rightarrow> 's \<Rightarrow> fault + 's" where
  "fold_f f [] s = Inr s"
| "fold_f f (x # xs) s = (case f x s of Inl e \<Rightarrow> Inl e | Inr s' \<Rightarrow> fold_f f xs s')"

section \<open>refine_edge\<close>

text \<open>
  The new vertex of an edge: the directed edge of global numbers, \<open>ndims\<close> coordinates and
  \<open>ndims*ndims\<close> metric entries are pushed to the worker's buffers.  A metric entry that
  is NaN is pushed like any other and a message goes to \<open>std::cerr\<close>.
\<close>

definition push_coord :: "'r::{plus,minus,times} list \<Rightarrow> 'r list \<Rightarrow> 'r \<Rightarrow> nat
     \<Rightarrow> 'r refine_state \<Rightarrow> 'r refine_state" where
  "push_coord x0 x1 weight i S =
     (let x = x0 ! i + weight * (x1 ! i - x0 ! i)
      in S\<lparr>newCoords := newCoords S @ [x]\<rparr>)"

definition push_metric :: "'r::{plus,minus,times} ext \<Rightarrow> 'r list \<Rightarrow> 'r list \<Rightarrow> 'r \<Rightarrow> nat
     \<Rightarrow> 'r refine_state \<Rightarrow> 'r refine_state" where
  "push_metric X m0 m1 weight i S =
     (let m = m0 ! i + weight * (m1 ! i - m0 ! i);
          S1 = S\<lparr>newMetric := newMetric S @ [m]\<rparr>
      in if isnan X m then S1\<lparr>cerr := cerr S1 @ [(m0 ! i, m1 ! i, weight)]\<rparr> else S1)"

definition edge_weight :: "'r::{one,plus,inverse} ext \<Rightarrow> 'r list \<Rightarrow> 'r list \<Rightarrow> 'r list \<Rightarrow> 'r list \<Rightarrow> 'r" where
  "edge_weight X x0 x1 m0 m1 =
     1 / (1 + sqrt_r X (property_length X x0 x1 m0 / property_length X x0 x1 m1))"

definition refine_edge :: "'r::{one,plus,minus,times,inverse} ext \<Rightarrow> index_t \<Rightarrow> index_t
     \<Rightarrow> 'r refine_state \<Rightarrow> 'r refine_state" where
  "refine_edge X n0 n1 S =
     (case order_by_gnn (gnn_at X (lnn2gnn S)) n0 n1 of (a, b) \<Rightarrow>
        let S1 = S\<lparr>newVertices := newVertices S
                      @ [\<lparr>edge = (gnn_at X (lnn2gnn S) a, gnn_at X (lnn2gnn S) b), id_e = None\<rparr>]\<rparr>;
            x0 = get_coords (mesh S) a;
            m0 = get_metric (mesh S) a;
            x1 = get_coords (mesh S) b;
            m1 = get_metric (mesh S) b;
            weight = edge_weight X x0 x1 m0 m1;
            S2 = fold (push_coord x0 x1 weight) [0..<ndims (mesh S)] S1
        in fold (push_metric X m0 m1 weight) [0..<ndims (mesh S) * ndims (mesh S)] S2)"

section \<open>Selection of the long edges\<close>

definition stage_edge :: "nat \<Rightarrow> nat \<Rightarrow> 'r refine_state \<Rightarrow> 'r refine_state" where
  "stage_edge i it S =
     S\<lparr>refined_edges := (refined_edges S)
          [i := (refined_edges S ! i)[2 * it := int (splitCnt S), 2 * it + 1 := 0]],
       splitCnt := splitCnt S + 1\<rparr>"

definition select_edge :: "'r::{one,plus,minus,times,inverse,ord} ext \<Rightarrow> 'r \<Rightarrow> nat \<Rightarrow> nat
     \<Rightarrow> 'r refine_state \<Rightarrow> 'r refine_state" where
  "select_edge X L_max i it S =
     (let otherVertex = NNList (mesh S) ! i ! it
      in if gnn_at X (lnn2gnn S) (int i) < gnn_at X (lnn2gnn S) otherVertex
         then (let len = calc_edge_length X (mesh S) (int i) otherVertex
               in if len > L_max
                  then refine_edge X (int i) otherVertex (stage_edge i it S)
                  else S)
         else S)"

definition select_vertex :: "'r::{one,plus,minus,times,inverse,ord} ext \<Rightarrow> 'r \<Rightarrow> nat
     \<Rightarrow> 'r refine_state \<Rightarrow> 'r refine_state" where
  "select_vertex X L_max i S =
     fold (select_edge X L_max i) [0..<length (NNList (mesh S) ! i)]
       (S\<lparr>refined_edges := (refined_edges S)
             [i := resize_v (2 * length (NNList (mesh S) ! i)) (- 1) (refined_edges S ! i)]\<rparr>)"

definition select_edges :: "'r::{one,plus,minus,times,inverse,ord} ext \<Rightarrow> 'r \<Rightarrow> nat
     \<Rightarrow> 'r refine_state \<Rightarrow> 'r refine_state" where
  "select_edges X L_max NNodes S = fold (select_vertex X L_max) [0..<NNodes] S"

section \<open>Propagation of the marks (three dimensions)\<close>

text \<open>The pairs \<open>(j, k)\<close> with \<open>j < k < nl\<close>, in the order of the two nested loops.\<close>

definition edge_pairs :: "nat \<Rightarrow> (nat \<times> nat) list" where
  "edge_pairs nl = concat (map (\<lambda>j. map (\<lambda>k. (j, k)) [j + 1..<nl]) [0..<nl])"

text \<open>
  The split edges of an element \<open>n\<close>, each with the value \<open>get_new_vertex\<close> gave for it.
  \<open>gnv\<close> is \<open>get_new_vertex\<close> on the current table.
\<close>

fun split_edges :: "(index_t \<Rightarrow> index_t \<Rightarrow> fault + index_t) \<Rightarrow> index_t list \<Rightarrow> (nat \<times> nat) list
     \<Rightarrow> fault + (index_t \<times> edge_t) list" where
  "split_edges gnv n [] = Inr []"
| "split_edges gnv n ((j, k) # ps) =
     (case gnv (n ! j) (n ! k) of
        Inl e \<Rightarrow> Inl e
      | Inr v \<Rightarrow>
          (case split_edges gnv n ps of
             Inl e \<Rightarrow> Inl e
           | Inr s \<Rightarrow> Inr (if v \<ge> 0 then (v, Edge (n ! j) (n ! k)) # s else s)))"

text \<open>
  "Refine unsplit edges": every edge of the element that is not in \<open>split_set\<close> is marked.
  The second component of the result counts the calls of \<open>mark_edge\<close>.
\<close>

fun mark_unsplit :: "'r mesh \<Rightarrow> (index_t \<Rightarrow> index_t) \<Rightarrow> index_t list \<Rightarrow> edge_t list
     \<Rightarrow> (nat \<times> nat) list \<Rightarrow> index_t list list \<times> int \<Rightarrow> fault + index_t list list \<times> int" where
  "mark_unsplit m gnn n split_set [] st = Inr st"
| "mark_unsplit m gnn n split_set ((j, k) # ps) (re, cnt) =
     (if Edge (n ! j) (n ! k) \<in> set split_set
      then mark_unsplit m gnn n split_set ps (re, cnt)
      else (case mark_edge m gnn (n ! j) (n ! k) re of
              Inl e \<Rightarrow> Inl e
            | Inr re' \<Rightarrow> mark_unsplit m gnn n split_set ps (re', cnt + 1)))"

text \<open>
  The \<open>switch(refine_cnt)\<close> of the propagation loop for one element that is not erased.
  The state is the table \<open>refined_edges\<close> and the counter \<open>new_edges_size\<close>.  The cases 2
  and 5 count the edges they mark; the cases 3 and 4 mark edges and leave the counter as
  it is.
\<close>

fun propagate_element :: "'r mesh \<Rightarrow> (index_t \<Rightarrow> index_t) \<Rightarrow> index_t list
     \<Rightarrow> index_t list list \<times> int \<Rightarrow> fault + index_t list list \<times> int" where
  "propagate_element m gnn n (re, new_edges_size) =
     (case split_edges (\<lambda>a b. get_new_vertex m gnn a b re) n (edge_pairs (nloc m)) of
        Inl e \<Rightarrow> Inl e
      | Inr vs \<Rightarrow>
          (let split_set = map snd vs;
               refine_cnt = length split_set
           in if refine_cnt = 2 then
                (let n0 = connected (split_set ! 0) (split_set ! 1)
                 in if n0 \<ge> 0 then
                      (let n1 = (if n0 = fst (split_set ! 0) then snd (split_set ! 0)
                                 else fst (split_set ! 0));
                           n2 = (if n0 = fst (split_set ! 1) then snd (split_set ! 1)
                                 else fst (split_set ! 1))
                       in (case mark_edge m gnn n1 n2 re of
                             Inl e \<Rightarrow> Inl e
                           | Inr re' \<Rightarrow> Inr (re', new_edges_size + 1)))
                    else Inr (re, new_edges_size))
              else if refine_cnt = 3 then
                (let shared = filter (\<lambda>nid. nid \<ge> 0)
                                (map (\<lambda>(j, k). connected (split_set ! j) (split_set ! k))
                                   (edge_pairs 3));
                     nshared = length (remdups shared)
                 in if nshared \<noteq> 3 then
                      (case mark_unsplit m gnn n split_set (edge_pairs 4) (re, 0) of
                         Inl e \<Rightarrow> Inl e
                       | Inr (re', marked) \<Rightarrow> Inr (re', new_edges_size))
                    else Inr (re, new_edges_size))
              else if refine_cnt = 4 then
                (case mark_unsplit m gnn n split_set (edge_pairs 4) (re, 0) of
                   Inl e \<Rightarrow> Inl e
                 | Inr (re', marked) \<Rightarrow> Inr (re', new_edges_size))
              else if refine_cnt = 5 then
                (case mark_unsplit m gnn n split_set (edge_pairs 4) (re, 0) of
                   Inl e \<Rightarrow> Inl e
                 | Inr (re', marked) \<Rightarrow> Inr (re', new_edges_size + marked))
              else Inr (re, new_edges_size)))"

declare propagate_element.simps [simp del]

definition propagate_step :: "'r mesh \<Rightarrow> (index_t \<Rightarrow> index_t) \<Rightarrow> nat
     \<Rightarrow> index_t list list \<times> int \<Rightarrow> fault + index_t list list \<times> int" where
  "propagate_step m gnn i st =
     (let n = get_element m i
      in if n ! 0 < 0 then Inr st else propagate_element m gnn n st)"

definition propagate_sweep :: "'r ext \<Rightarrow> nat \<Rightarrow> 'r refine_state \<Rightarrow> fault + index_t list list \<times> int" where
  "propagate_sweep X NElements S =
     fold_f (propagate_step (mesh S) (gnn_at X (lnn2gnn S))) [0..<NElements] (refined_edges S, 0)"

text \<open>"Loop through all edges and refine those which have been marked".\<close>

definition realise_edge :: "'r::{one,plus,minus,times,inverse} ext \<Rightarrow> nat \<Rightarrow> nat
     \<Rightarrow> 'r refine_state \<Rightarrow> 'r refine_state" where
  "realise_edge X i it S =
     (if refined_edges S ! i ! (2 * it) = index_max
      then (let otherVertex = NNList (mesh S) ! i ! it
            in refine_edge X (int i) otherVertex (stage_edge i it S))
      else S)"

definition realise_vertex :: "'r::{one,plus,minus,times,inverse} ext \<Rightarrow> nat
     \<Rightarrow> 'r refine_state \<Rightarrow> 'r refine_state" where
  "realise_vertex X i S = fold (realise_edge X i) [0..<length (NNList (mesh S) ! i)] S"

definition realise_edges :: "'r::{one,plus,minus,times,inverse} ext \<Rightarrow> nat
     \<Rightarrow> 'r refine_state \<Rightarrow> 'r refine_state" where
  "realise_edges X NNodes S = fold (realise_vertex X) [0..<NNodes] S"

text \<open>
  The loop \<open>for(;;)\<close>.  \<open>k\<close> counts its iterations.  The loop is left when the sum of
  \<open>new_edges_size\<close> over the ranks is 0; \<open>None\<close> is a loop that is never left.
\<close>

partial_function (option) propagate :: "'r::{one,plus,minus,times,inverse} ext \<Rightarrow> nat \<Rightarrow> nat \<Rightarrow> nat
     \<Rightarrow> 'r refine_state \<Rightarrow> (fault + 'r refine_state) option" where
  "propagate X NNodes NElements k S =
     (case propagate_sweep X NElements S of
        Inl e \<Rightarrow> Some (Inl e)
      | Inr (re, new_edges_size) \<Rightarrow>
          if (if nprocs S > 1 then mpi_allreduce X k new_edges_size else new_edges_size) = 0
          then Some (Inr (S\<lparr>refined_edges := re\<rparr>))
          else propagate X NNodes NElements (k + 1)
                 (realise_edges X NNodes (S\<lparr>refined_edges := re\<rparr>)))"

declare propagate.simps [code]

section \<open>Insertion of the new vertices\<close>

fun map_f :: "('a \<Rightarrow> fault + 'b) \<Rightarrow> 'a list \<Rightarrow> fault + 'b list" where
  "map_f f [] = Inr []"
| "map_f f (x # xs) =
     (case f x of
        Inl e \<Rightarrow> Inl e
      | Inr y \<Rightarrow> (case map_f f xs of Inl e \<Rightarrow> Inl e | Inr ys \<Rightarrow> Inr (y # ys)))"

text \<open>
  "Fix IDs of new vertices in refined_edges": the list of one vertex is walked two slots at
  a time, and a first slot other than \<open>-1\<close> is raised by \<open>threadIdx[*(it+1)]\<close>.
\<close>

fun fix_ids :: "nat list \<Rightarrow> index_t list \<Rightarrow> fault + index_t list" where
  "fix_ids threadIdx [] = Inr []"
| "fix_ids threadIdx [v] = Inl OutOfBounds"
| "fix_ids threadIdx (v # t # rest) =
     (if v \<noteq> - 1 \<and> (t < 0 \<or> length threadIdx \<le> nat t) then Inl OutOfBounds
      else (case fix_ids threadIdx rest of
              Inl e \<Rightarrow> Inl e
            | Inr r \<Rightarrow> Inr ((if v \<noteq> - 1 then v + int (threadIdx ! nat t) else v) # t # r)))"

definition assign_ids :: "nat \<Rightarrow> nat \<Rightarrow> DirectedEdge list \<Rightarrow> DirectedEdge list" where
  "assign_ids threadIdx cnt nv =
     fold (\<lambda>i nv. nv[i := (nv ! i)\<lparr>id_e := Some (int (threadIdx + i))\<rparr>]) [0..<cnt] nv"

text \<open>
  With one worker the prefix sum leaves \<open>threadIdx[0] = splitCnt[0]\<close>, and
  \<open>threadIdx[tid] += NNodes - splitCnt[tid]\<close> follows.
\<close>

definition insert_vertices :: "nat \<Rightarrow> 'r::zero refine_state \<Rightarrow> fault + 'r refine_state" where
  "insert_vertices NNodes S =
     (let threadIdx = splitCnt S + NNodes - splitCnt S;
          newSize = threadIdx + splitCnt S;
          m = mesh S;
          d = ndims m;
          coords1 = resize_v (d * newSize) 0 (coords m);
          metric1 = resize_v (d * d * newSize) 0 (metric m);
          NEList1 = resize_v newSize [] (NEList m);
          NNList1 = resize_v newSize [] (NNList m);
          node_owner1 = resize_v newSize (- 1) (node_owner S)
      in (case memcpy coords1 (d * threadIdx) (newCoords S) (d * splitCnt S) of
            Inl e \<Rightarrow> Inl e
          | Inr coords2 \<Rightarrow>
              (case memcpy metric1 (d * d * threadIdx) (newMetric S) (d * d * splitCnt S) of
                 Inl e \<Rightarrow> Inl e
               | Inr metric2 \<Rightarrow>
                   if length (newVertices S) \<noteq> splitCnt S then Inl AssertionFailed
                   else (case map_f (fix_ids [threadIdx]) (refined_edges S) of
                           Inl e \<Rightarrow> Inl e
                         | Inr re \<Rightarrow>
                             Inr (S\<lparr>mesh := m\<lparr>coords := coords2, metric := metric2,
                                               NEList := NEList1, NNList := NNList1\<rparr>,
                                     node_owner := node_owner1,
                                     newVertices := assign_ids threadIdx (splitCnt S) (newVertices S),
                                     refined_edges := re\<rparr>)))))"

section \<open>Subdivision of the elements\<close>

fun first_index :: "('a \<Rightarrow> bool) \<Rightarrow> 'a list \<Rightarrow> nat \<Rightarrow> nat option" where
  "first_index P [] j = None"
| "first_index P (x # xs) j = (if P x then Some j else first_index P xs (j + 1))"

definition rotate3 :: "index_t list \<Rightarrow> nat \<Rightarrow> index_t list" where
  "rotate3 n j = map (\<lambda>k. n ! ((j + k) mod 3)) [0..<3]"

subsection \<open>Two dimensions\<close>

definition template_2d_1 :: "index_t list \<Rightarrow> index_t list \<Rightarrow> fault + index_t list list" where
  "template_2d_1 n newVertex =
     (case first_index (\<lambda>v. v \<ge> 0) newVertex 0 of
        None \<Rightarrow> Inl AssertionFailed
      | Some j \<Rightarrow>
          (let vertexID = newVertex ! j;
               rotated_ele = rotate3 n j
           in if vertexID = - 1 then Inl AssertionFailed
              else Inr [[rotated_ele ! 0, rotated_ele ! 1, vertexID],
                        [rotated_ele ! 0, vertexID, rotated_ele ! 2]]))"

text \<open>
  The two diagonals of the two-split case.  Each length is computed by
  \<open>calc_edge_length\<close> on a pair of arguments chosen by a comparison; the pair is a value
  of its own here.  The first comparison is between two entries of \<open>lnn2gnn\<close>, the second
  between an entry of \<open>lnn2gnn\<close> and the vertex number \<open>rotated_ele[2]\<close>.
\<close>

definition ldiag0_args :: "(index_t \<Rightarrow> index_t) \<Rightarrow> index_t list \<Rightarrow> index_t list \<Rightarrow> index_t \<times> index_t" where
  "ldiag0_args gnn vertexID rotated_ele =
     (if gnn (vertexID ! 0) < gnn (rotated_ele ! 1)
      then (vertexID ! 0, rotated_ele ! 1)
      else (rotated_ele ! 1, vertexID ! 0))"

definition ldiag1_args :: "(index_t \<Rightarrow> index_t) \<Rightarrow> index_t list \<Rightarrow> index_t list \<Rightarrow> index_t \<times> index_t" where
  "ldiag1_args gnn vertexID rotated_ele =
     (if gnn (vertexID ! 1) < rotated_ele ! 2
      then (vertexID ! 1, rotated_ele ! 2)
      else (rotated_ele ! 2, vertexID ! 1))"

definition ldiag0 :: "'r ext \<Rightarrow> 'r mesh \<Rightarrow> (index_t \<Rightarrow> index_t)
     \<Rightarrow> index_t list \<Rightarrow> index_t list \<Rightarrow> 'r" where
  "ldiag0 X m gnn vertexID rotated_ele =
     (case ldiag0_args gnn vertexID rotated_ele of (a, b) \<Rightarrow> calc_edge_length X m a b)"

definition ldiag1 :: "'r ext \<Rightarrow> 'r mesh \<Rightarrow> (index_t \<Rightarrow> index_t)
     \<Rightarrow> index_t list \<Rightarrow> index_t list \<Rightarrow> 'r" where
  "ldiag1 X m gnn vertexID rotated_ele =
     (case ldiag1_args gnn vertexID rotated_ele of (a, b) \<Rightarrow> calc_edge_length X m a b)"

text \<open>\<open>const int offset = ldiag0 < ldiag1 ? 0 : 1;\<close>\<close>

definition diagonal_offset :: "'r::ord ext \<Rightarrow> 'r mesh \<Rightarrow> (index_t \<Rightarrow> index_t)
     \<Rightarrow> index_t list \<Rightarrow> index_t list \<Rightarrow> nat" where
  "diagonal_offset X m gnn vertexID rotated_ele =
     (if ldiag0 X m gnn vertexID rotated_ele < ldiag1 X m gnn vertexID rotated_ele then 0 else 1)"

definition template_2d_2 :: "'r::ord ext \<Rightarrow> 'r mesh \<Rightarrow> (index_t \<Rightarrow> index_t)
     \<Rightarrow> index_t list \<Rightarrow> index_t list \<Rightarrow> fault + index_t list list" where
  "template_2d_2 X m gnn n newVertex =
     (case first_index (\<lambda>v. v < 0) newVertex 0 of
        None \<Rightarrow> Inl Uninitialised
      | Some j \<Rightarrow>
          (let vertexID = [newVertex ! ((j + 1) mod 3), newVertex ! ((j + 2) mod 3)];
               rotated_ele = rotate3 n j;
               offset = diagonal_offset X m gnn vertexID rotated_ele
           in Inr [[rotated_ele ! 0, vertexID ! 1, vertexID ! 0],
                   [vertexID ! offset, rotated_ele ! 1, rotated_ele ! 2],
                   [vertexID ! 0, vertexID ! 1, rotated_ele ! (offset + 1)]]))"

definition template_2d_3 :: "index_t list \<Rightarrow> index_t list \<Rightarrow> index_t list list" where
  "template_2d_3 n newVertex =
     [[n ! 0, newVertex ! 2, newVertex ! 1],
      [n ! 1, newVertex ! 0, newVertex ! 2],
      [n ! 2, newVertex ! 1, newVertex ! 0],
      [newVertex ! 0, newVertex ! 1, newVertex ! 2]]"

text \<open>
  The result \<open>None\<close> is the \<open>continue\<close> of the case without a split edge: the element
  stays.  \<open>Some children\<close> are the elements to append; the parent is erased afterwards.
\<close>

definition refine_element_2d :: "'r::ord ext \<Rightarrow> 'r refine_state \<Rightarrow> index_t list
     \<Rightarrow> fault + index_t list list option" where
  "refine_element_2d X S n =
     (let gnv = (\<lambda>a b. get_new_vertex (mesh S) (gnn_at X (lnn2gnn S)) a b (refined_edges S))
      in (case gnv (n ! 1) (n ! 2) of
            Inl e \<Rightarrow> Inl e
          | Inr v0 \<Rightarrow>
              (case gnv (n ! 2) (n ! 0) of
                 Inl e \<Rightarrow> Inl e
               | Inr v1 \<Rightarrow>
                   (case gnv (n ! 0) (n ! 1) of
                      Inl e \<Rightarrow> Inl e
                    | Inr v2 \<Rightarrow>
                        (let newVertex = [v0, v1, v2];
                             refine_cnt = length (filter (\<lambda>v. v \<ge> 0) newVertex)
                         in if refine_cnt = 0 then Inr None
                            else if refine_cnt = 1 then
                              map_sum (\<lambda>e. e) Some (template_2d_1 n newVertex)
                            else if refine_cnt = 2 then
                              map_sum (\<lambda>e. e) Some
                                (template_2d_2 X (mesh S) (gnn_at X (lnn2gnn S)) n newVertex)
                            else if refine_cnt = 3 then Inr (Some (template_2d_3 n newVertex))
                            else Inr (Some []))))))"

subsection \<open>Three dimensions\<close>

definition template_3d_1 :: "index_t list \<Rightarrow> index_t list \<Rightarrow> edge_t list \<Rightarrow> fault + index_t list list" where
  "template_3d_1 n newVertex splitEdges =
     (let oe = filter (\<lambda>v. \<not> contains (splitEdges ! 0) v) (take 4 n)
      in if length oe > 2 then Inl OutOfBounds
         else if length oe < 2 then Inl Uninitialised
         else Inr [[fst (splitEdges ! 0), newVertex ! 0, oe ! 0, oe ! 1],
                   [snd (splitEdges ! 0), newVertex ! 0, oe ! 0, oe ! 1]])"

definition template_3d_2 :: "index_t list \<Rightarrow> edge_t list \<Rightarrow> index_t list list" where
  "template_3d_2 newVertex splitEdges =
     [[fst (splitEdges ! 0), newVertex ! 0, fst (splitEdges ! 1), newVertex ! 1],
      [fst (splitEdges ! 0), newVertex ! 0, snd (splitEdges ! 1), newVertex ! 1],
      [snd (splitEdges ! 0), newVertex ! 0, fst (splitEdges ! 1), newVertex ! 1],
      [snd (splitEdges ! 0), newVertex ! 0, snd (splitEdges ! 1), newVertex ! 1]]"

definition template_3d_3 :: "index_t list \<Rightarrow> index_t list \<Rightarrow> edge_t list \<Rightarrow> index_t list list" where
  "template_3d_3 n newVertex splitEdges =
     (let m0 = fst (splitEdges ! 0);
          m1 = newVertex ! 0;
          m2 = snd (splitEdges ! 0);
          m3 = (if contains (splitEdges ! 1) m2 then newVertex ! 1 else newVertex ! 2);
          m4 = (if contains (splitEdges ! 1) m2
                then (if fst (splitEdges ! 1) \<noteq> m2 then fst (splitEdges ! 1) else snd (splitEdges ! 1))
                else (if fst (splitEdges ! 2) \<noteq> m2 then fst (splitEdges ! 2) else snd (splitEdges ! 2)));
          m5 = (if contains (splitEdges ! 1) m2 then newVertex ! 2 else newVertex ! 1);
          m6 = (case first_index (\<lambda>v. v \<noteq> m0 \<and> v \<noteq> m2 \<and> v \<noteq> m4) (take 4 n) 0 of
                  None \<Rightarrow> - 1
                | Some j \<Rightarrow> n ! j)
      in [[m0, m1, m5, m6], [m1, m2, m3, m6], [m5, m3, m4, m6], [m1, m3, m5, m6]])"

definition template_3d_6 :: "index_t list \<Rightarrow> index_t list \<Rightarrow> index_t list list" where
  "template_3d_6 n newVertex =
     [[n ! 0, newVertex ! 0, newVertex ! 1, newVertex ! 2],
      [n ! 1, newVertex ! 3, newVertex ! 0, newVertex ! 4],
      [n ! 2, newVertex ! 1, newVertex ! 3, newVertex ! 5],
      [newVertex ! 0, newVertex ! 3, newVertex ! 1, newVertex ! 4],
      [newVertex ! 0, newVertex ! 4, newVertex ! 1, newVertex ! 2],
      [newVertex ! 1, newVertex ! 3, newVertex ! 5, newVertex ! 4],
      [newVertex ! 1, newVertex ! 4, newVertex ! 5, newVertex ! 2],
      [newVertex ! 2, newVertex ! 4, newVertex ! 5, n ! 3]]"

text \<open>
  The chain \<open>if(refine_cnt==0) ... else if(refine_cnt==6)\<close> has no last \<open>else\<close>: for any
  other count nothing is appended, and the statement after the chain erases the parent.
\<close>

definition element_split_edges :: "'r ext \<Rightarrow> 'r refine_state \<Rightarrow> index_t list
     \<Rightarrow> fault + (index_t \<times> edge_t) list" where
  "element_split_edges X S n =
     split_edges (\<lambda>a b. get_new_vertex (mesh S) (gnn_at X (lnn2gnn S)) a b (refined_edges S))
       n (edge_pairs 4)"

definition refine_element_3d :: "'r ext \<Rightarrow> 'r refine_state \<Rightarrow> index_t list
     \<Rightarrow> fault + index_t list list option" where
  "refine_element_3d X S n =
     (case element_split_edges X S n of
        Inl e \<Rightarrow> Inl e
      | Inr vs \<Rightarrow>
          (let newVertex = map fst vs;
               splitEdges = map snd vs;
               refine_cnt = length newVertex
           in if refine_cnt = 0 then Inr None
              else if refine_cnt = 1 then
                map_sum (\<lambda>e. e) Some (template_3d_1 n newVertex splitEdges)
              else if refine_cnt = 2 then Inr (Some (template_3d_2 newVertex splitEdges))
              else if refine_cnt = 3 then Inr (Some (template_3d_3 n newVertex splitEdges))
              else if refine_cnt = 6 then Inr (Some (template_3d_6 n newVertex))
              else Inr (Some [])))"

definition append_element :: "'r mesh \<Rightarrow> index_t list \<Rightarrow> index_t list \<Rightarrow> index_t list" where
  "append_element m elem EN = fold (\<lambda>i EN. EN @ [elem ! i]) [0..<nloc m] EN"

text \<open>The children are appended to the buffer of the worker and the parent is erased.\<close>

definition replace_element :: "nat \<Rightarrow> index_t list list \<Rightarrow> 'r refine_state \<Rightarrow> 'r refine_state" where
  "replace_element i children S =
     S\<lparr>newElements := fold (append_element (mesh S)) children (newElements S),
       splitCnt := splitCnt S + length children,
       mesh := erase_element (mesh S) i\<rparr>"

definition refine_element :: "'r::ord ext \<Rightarrow> nat \<Rightarrow> 'r refine_state \<Rightarrow> fault + 'r refine_state" where
  "refine_element X i S =
     (let n = get_element (mesh S) i
      in if n ! 0 < 0 then Inr S
         else (case (if ndims (mesh S) = 2 then refine_element_2d X S n
                     else refine_element_3d X S n) of
                 Inl e \<Rightarrow> Inl e
               | Inr None \<Rightarrow> Inr S
               | Inr (Some children) \<Rightarrow> Inr (replace_element i children S)))"

definition refine_elements :: "'r::ord ext \<Rightarrow> nat \<Rightarrow> 'r refine_state \<Rightarrow> fault + 'r refine_state" where
  "refine_elements X NElements S =
     (case fold_f (refine_element X) [0..<NElements] (S\<lparr>splitCnt := 0\<rparr>) of
        Inl e \<Rightarrow> Inl e
      | Inr S1 \<Rightarrow>
          (let threadIdx = splitCnt S1 + NElements - splitCnt S1;
               newSize = threadIdx + splitCnt S1;
               nl = nloc (mesh S1);
               ENList1 = resize_v (nl * newSize) 0 (ENList (mesh S1))
           in (case memcpy ENList1 (nl * threadIdx) (newElements S1) (nl * splitCnt S1) of
                 Inl e \<Rightarrow> Inl e
               | Inr ENList2 \<Rightarrow> Inr (S1\<lparr>mesh := (mesh S1)\<lparr>ENList := ENList2\<rparr>\<rparr>))))"

section \<open>Owners of the new vertices and the halo\<close>

text \<open>
  \<open>gnn2lnn[g]\<close> on a \<open>std::map\<close>: a key that is absent is entered with the value 0.
\<close>

definition map_at :: "(index_t \<Rightarrow> index_t option) \<Rightarrow> index_t \<Rightarrow> index_t" where
  "map_at g k = (case g k of None \<Rightarrow> 0 | Some v \<Rightarrow> v)"

definition map_touch :: "(index_t \<Rightarrow> index_t option) \<Rightarrow> index_t \<Rightarrow> (index_t \<Rightarrow> index_t option)" where
  "map_touch g k = (case g k of None \<Rightarrow> g(k \<mapsto> 0) | Some v \<Rightarrow> g)"

text \<open>
  The body of the loop over \<open>newVertices\<close>: the vertex is entered in \<open>lut_newVertices\<close>
  and its owner is the lesser of the owners of the two end points of its edge.
\<close>

fun assign_owner :: "DirectedEdge
     \<Rightarrow> 'r refine_state \<times> (index_t \<Rightarrow> DirectedEdge option)
     \<Rightarrow> fault + 'r refine_state \<times> (index_t \<Rightarrow> DirectedEdge option)" where
  "assign_owner vert (S, lut) =
     (case id_e vert of
        None \<Rightarrow> Inl Uninitialised
      | Some vid \<Rightarrow>
          if lut vid \<noteq> None then Inl AssertionFailed
          else (let g0 = gnn2lnn S;
                    owner0 = node_owner S ! nat (map_at g0 (fst (edge vert)));
                    g1 = map_touch g0 (fst (edge vert));
                    owner1 = node_owner S ! nat (map_at g1 (snd (edge vert)));
                    g2 = map_touch g1 (snd (edge vert));
                    owner = min owner0 owner1
                in Inr (S\<lparr>gnn2lnn := g2, node_owner := (node_owner S)[nat vid := owner]\<rparr>,
                        lut(vid \<mapsto> vert))))"

text \<open>
  Modelled from the spec: \<open>std::set< DirectedEdge<index_t> >\<close> needs the order of
  \<open>DirectedEdge\<close>, declared outside Refine.h.  The halo lists are "appended in a
  deterministic order derived from set iteration of (gid_lo,gid_hi) pairs": a set is a
  list without two entries of the same edge, in increasing order of the pairs.
\<close>

definition pair_less :: "index_t \<times> index_t \<Rightarrow> index_t \<times> index_t \<Rightarrow> bool" where
  "pair_less a b = (fst a < fst b \<or> (fst a = fst b \<and> snd a < snd b))"

fun set_insert :: "DirectedEdge \<Rightarrow> DirectedEdge list \<Rightarrow> DirectedEdge list" where
  "set_insert v [] = [v]"
| "set_insert v (x # xs) =
     (if edge v = edge x then x # xs
      else if pair_less (edge v) (edge x) then v # x # xs
      else x # set_insert v xs)"

type_synonym halo_work =
  "(index_t \<Rightarrow> DirectedEdge option) \<times> DirectedEdge list list \<times> DirectedEdge list list"

fun halo_vertex :: "nat \<Rightarrow> int list \<Rightarrow> index_t
     \<Rightarrow> 'r refine_state \<times> halo_work \<Rightarrow> fault + 'r refine_state \<times> halo_work" where
  "halo_vertex origNNodes processes nj (S, lut, send_additional, recv_additional) =
     (if nj < int origNNodes then Inr (S, lut, send_additional, recv_additional)
      else (case lut nj of
              None \<Rightarrow> Inl Uninitialised
            | Some v \<Rightarrow>
                if node_owner S ! nat nj = rank S
                then Inr (S, lut,
                       fold (\<lambda>ip sa. if ip = rank S then sa
                                      else sa[nat ip := set_insert v (sa ! nat ip)])
                         processes send_additional,
                       recv_additional)
                else Inr (S, lut, send_additional,
                       recv_additional[nat (node_owner S ! nat nj)
                          := set_insert v (recv_additional ! nat (node_owner S ! nat nj))])))"

fun halo_element :: "nat \<Rightarrow> nat
     \<Rightarrow> 'r refine_state \<times> halo_work \<Rightarrow> fault + 'r refine_state \<times> halo_work" where
  "halo_element origNNodes i (S, w) =
     (let n = get_element (mesh S) i
      in if n ! 0 < 0 then Inr (S, w)
         else (let processes = sort (remdups (map (\<lambda>nj. node_owner S ! nat nj) n))
               in if - 1 \<in> set processes then Inl AssertionFailed
                  else if rank S \<notin> set processes
                       then Inr (S\<lparr>mesh := erase_element (mesh S) i\<rparr>, w)
                  else if length processes = 1 then Inr (S, w)
                  else fold_f (halo_vertex origNNodes processes) n (S, w)))"

definition push_ids :: "DirectedEdge list list \<Rightarrow> index_t list list \<Rightarrow> nat \<Rightarrow> index_t list list" where
  "push_ids additional halo_lists np =
     fold (\<lambda>i ls. ls[i := ls ! i @ map (\<lambda>v. the (id_e v)) (additional ! i)]) [0..<np] halo_lists"

definition insert_ids :: "DirectedEdge list list \<Rightarrow> index_t set \<Rightarrow> nat \<Rightarrow> index_t set" where
  "insert_ids additional halo np =
     fold (\<lambda>i h. fold (\<lambda>v h. insert (the (id_e v)) h) (additional ! i) h) [0..<np] halo"

text \<open>
  The block under \<open>HAVE_MPI\<close>, which runs when \<open>nprocs > 1\<close>.  Every entry of the two sets
  comes out of \<open>lut_newVertices\<close>, where an entry has its number.
\<close>

definition amend_halo :: "nat \<Rightarrow> nat \<Rightarrow> nat \<Rightarrow> nat \<Rightarrow> 'r refine_state \<Rightarrow> fault + 'r refine_state" where
  "amend_halo origNNodes origNElements NNodes NElements S =
     (if length (node_owner S) \<noteq> NNodes then Inl AssertionFailed
      else (case fold_f assign_owner (newVertices S) (S, Map.empty) of
              Inl e \<Rightarrow> Inl e
            | Inr (S1, lut) \<Rightarrow>
                (case fold_f (halo_element origNNodes) [origNElements..<NElements]
                        (S1, lut, replicate (nprocs S) [], replicate (nprocs S) []) of
                   Inl e \<Rightarrow> Inl e
                 | Inr (S2, lut2, send_additional, recv_additional) \<Rightarrow>
                     Inr (S2\<lparr>mesh := (mesh S2)
                              \<lparr>send := push_ids send_additional (send (mesh S2)) (nprocs S),
                               send_halo := insert_ids send_additional (send_halo (mesh S2)) (nprocs S),
                               recv := push_ids recv_additional (recv (mesh S2)) (nprocs S),
                               recv_halo := insert_ids recv_additional (recv_halo (mesh S2)) (nprocs S)\<rparr>\<rparr>))))"

section \<open>Orientation of the new elements\<close>

definition fix_orientation :: "'r::{zero,ord} ext \<Rightarrow> nat \<Rightarrow> 'r mesh \<Rightarrow> 'r mesh" where
  "fix_orientation X i m =
     (let n = get_element m i
      in if n ! 0 < 0 then m
         else (let av = (if ndims m = 2
                         then property_area X (get_coords m (n ! 0)) (get_coords m (n ! 1))
                                (get_coords m (n ! 2))
                         else property_volume X (get_coords m (n ! 0)) (get_coords m (n ! 1))
                                (get_coords m (n ! 2)) (get_coords m (n ! 3)))
               in if av < 0
                  then m\<lparr>ENList := (ENList m)[i * nloc m := n ! 1, i * nloc m + 1 := n ! 0]\<rparr>
                  else m))"

section \<open>refine\<close>

text \<open>
  Modelled from the spec: \<open>halo_update\<close> is a member of the mesh.  "A halo exchange then
  overwrites the GIDs of received (ghost) vertices with the authoritative values from
  their owners": every vertex of a \<open>recv\<close> list gets the value received for it,
  \<open>halo_value\<close>.
\<close>

definition halo_update :: "(index_t \<Rightarrow> index_t) \<Rightarrow> 'r mesh \<Rightarrow> index_t list \<Rightarrow> index_t list" where
  "halo_update hv m l = fold (\<lambda>v l. l[nat v := hv v]) (concat (recv m)) l"

definition global_numbering :: "'r ext \<Rightarrow> nat \<Rightarrow> 'r refine_state \<Rightarrow> 'r refine_state" where
  "global_numbering X NNodes S =
     (let gnn_offset = (if nprocs S > 1 then mpi_scan X NNodes - int NNodes else 0);
          l = halo_update (halo_value X) (mesh S) (map (\<lambda>i. gnn_offset + int i) [0..<NNodes])
      in S\<lparr>lnn2gnn := l,
           gnn2lnn := fold (\<lambda>i g. g(l ! i \<mapsto> int i)) [0..<NNodes] (gnn2lnn S)\<rparr>)"

definition node_ownership :: "nat \<Rightarrow> 'r refine_state \<Rightarrow> 'r refine_state" where
  "node_ownership NNodes S =
     (let owner0 = replicate NNodes (rank S)
      in S\<lparr>node_owner :=
             (if nprocs S > 1
              then fold (\<lambda>i own. fold (\<lambda>v own. own[nat v := int i]) (recv (mesh S) ! i) own)
                     [0..<nprocs S] owner0
              else owner0)\<rparr>)"

text \<open>
  After the subdivision \<open>NNodes\<close> and \<open>NElements\<close> are read again from the mesh, the
  halo is amended when there are several partitions, the elements from \<open>NElements\<close> to the
  end of the mesh are oriented, and the adjacency lists are built again.  The refinement
  of the surface acts on another object and is not part of the state.
\<close>

definition finalise :: "'r::{zero,ord} ext \<Rightarrow> nat \<Rightarrow> nat \<Rightarrow> 'r refine_state \<Rightarrow> fault + 'r refine_state" where
  "finalise X origNNodes origNElements S =
     (let NNodes = get_number_nodes (mesh S);
          NElements = get_number_elements (mesh S)
      in (case (if nprocs S > 1 then amend_halo origNNodes origNElements NNodes NElements S
                else Inr S) of
            Inl e \<Rightarrow> Inl e
          | Inr S1 \<Rightarrow>
              (let m1 = fold (fix_orientation X) [NElements..<get_number_elements (mesh S1)] (mesh S1)
               in Inr (S1\<lparr>mesh := m1\<lparr>NNList := adjacency_NN X m1, NEList := adjacency_NE X m1\<rparr>\<rparr>))))"

definition bind_f :: "fault + 'a \<Rightarrow> ('a \<Rightarrow> fault + 'b) \<Rightarrow> fault + 'b" where
  "bind_f r f = (case r of Inl e \<Rightarrow> Inl e | Inr x \<Rightarrow> f x)"

definition start :: "'r ext \<Rightarrow> nat \<Rightarrow> 'r refine_state \<Rightarrow> 'r refine_state" where
  "start X NNodes S =
     (node_ownership NNodes (global_numbering X NNodes S))
       \<lparr>refined_edges := replicate NNodes [], newVertices := [], newCoords := [],
        newMetric := [], newElements := [], splitCnt := 0\<rparr>"

definition refine :: "'r::{zero,one,plus,minus,times,inverse,ord} ext \<Rightarrow> 'r \<Rightarrow> 'r refine_state
     \<Rightarrow> (fault + 'r refine_state) option" where
  "refine X L_max S =
     (let NNodes = get_number_nodes (mesh S);
          NElements = get_number_elements (mesh S);
          S1 = select_edges X L_max NNodes (start X NNodes S)
      in (case (if ndims (mesh S) = 3 then propagate X NNodes NElements 0 S1 else Some (Inr S1)) of
            None \<Rightarrow> None
          | Some r \<Rightarrow>
              Some (bind_f r (\<lambda>S2.
                    bind_f (insert_vertices NNodes S2) (\<lambda>S3.
                    bind_f (refine_elements X NElements S3) (\<lambda>S4.
                    finalise X NNodes NElements S4))))))"

text \<open>What a call that returns leaves in a part \<open>f\<close> of the state.\<close>

definition on_return :: "('r refine_state \<Rightarrow> 'a) \<Rightarrow> (fault + 'r refine_state) option \<Rightarrow> 'a option" where
  "on_return f r = (case r of Some (Inr S) \<Rightarrow> Some (f S) | _ \<Rightarrow> None)"

text \<open>The fault of a call that ends in one.\<close>

definition fault_of :: "(fault + 'a) option \<Rightarrow> fault option" where
  "fault_of r = (case r of Some (Inl e) \<Rightarrow> Some e | _ \<Rightarrow> None)"

section \<open>Concrete meshes\<close>

text \<open>
  The unit triangle and the unit tetrahedron of the scenarios, with rational numbers for
  \<open>real_t\<close>: every vertex is a neighbour of every other, and there is one partition.
\<close>

definition unit_triangle :: "rat mesh" where
  "unit_triangle =
     \<lparr>ndims = 2, coords = [0, 0, 1, 0, 0, 1],
      metric = [1, 0, 0, 1, 1, 0, 0, 1, 1, 0, 0, 1],
      ENList = [0, 1, 2], NNList = [[1, 2], [0, 2], [0, 1]], NEList = [[0], [0], [0]],
      recv = [[]], send = [[]], recv_halo = {}, send_halo = {}\<rparr>"

definition unit_tetrahedron :: "rat mesh" where
  "unit_tetrahedron =
     \<lparr>ndims = 3, coords = [0, 0, 0, 1, 0, 0, 0, 1, 0, 0, 0, 1],
      metric = [1, 0, 0, 0, 1, 0, 0, 0, 1, 1, 0, 0, 0, 1, 0, 0, 0, 1,
                1, 0, 0, 0, 1, 0, 0, 0, 1, 1, 0, 0, 0, 1, 0, 0, 0, 1],
      ENList = [0, 1, 2, 3], NNList = [[1, 2, 3], [0, 2, 3], [0, 1, 3], [0, 1, 2]],
      NEList = [[0], [0], [0], [0]],
      recv = [[]], send = [[]], recv_halo = {}, send_halo = {}\<rparr>"

text \<open>
  An environment for the examples: every edge has length 1 in \<open>calc_edge_length\<close> and
  in \<open>property_length\<close>, \<open>sqrt_r\<close> is right at the one value it is applied to (1), no number
  is NaN, the halo exchange and the memory behind \<open>lnn2gnn\<close> give back the vertex number,
  and \<open>create_adjancy\<close> leaves the lists as they are.
\<close>

definition unit_ext :: "rat ext" where
  "unit_ext =
     \<lparr>calc_edge_length = (\<lambda>m a b. 1), property_length = (\<lambda>x0 x1 m. 1),
      property_area = (\<lambda>x0 x1 x2. 1), property_volume = (\<lambda>x0 x1 x2 x3. 1),
      sqrt_r = (\<lambda>x. x), isnan = (\<lambda>x. False), mpi_scan = (\<lambda>n. int n),
      mpi_allreduce = (\<lambda>k x. x), halo_value = (\<lambda>v. v), past_end = (\<lambda>i. i),
      adjacency_NN = (\<lambda>m. NNList m), adjacency_NE = (\<lambda>m. NEList m)\<rparr>"

definition serial_state :: "'r mesh \<Rightarrow> 'r refine_state" where
  "serial_state m =
     \<lparr>mesh = m, lnn2gnn = [], gnn2lnn = Map.empty, node_owner = [], rank = 0, nprocs = 1,
      refined_edges = [], newVertices = [], newCoords = [], newMetric = [], newElements = [],
      splitCnt = 0, cerr = []\<rparr>"

text \<open>
  A number type with a NaN, for the examples where one is needed: a rational number or
  NaN.  NaN is absorbing, a quotient by zero is NaN (the type has no infinities), and no
  comparison with NaN holds.
\<close>

datatype fp = NaN | Fin rat

instantiation fp :: "{zero,one,plus,minus,times,inverse,ord}"
begin

definition zero_fp :: fp where
  "zero_fp = Fin 0"

definition one_fp :: fp where
  "one_fp = Fin 1"

fun plus_fp :: "fp \<Rightarrow> fp \<Rightarrow> fp" where
  "plus_fp (Fin a) (Fin b) = Fin (a + b)"
| "plus_fp _ _ = NaN"

fun minus_fp :: "fp \<Rightarrow> fp \<Rightarrow> fp" where
  "minus_fp (Fin a) (Fin b) = Fin (a - b)"
| "minus_fp _ _ = NaN"

fun times_fp :: "fp \<Rightarrow> fp \<Rightarrow> fp" where
  "times_fp (Fin a) (Fin b) = Fin (a * b)"
| "times_fp _ _ = NaN"

fun inverse_fp :: "fp \<Rightarrow> fp" where
  "inverse_fp (Fin a) = (if a = 0 then NaN else Fin (inverse a))"
| "inverse_fp NaN = NaN"

fun divide_fp :: "fp \<Rightarrow> fp \<Rightarrow> fp" where
  "divide_fp (Fin a) (Fin b) = (if b = 0 then NaN else Fin (a / b))"
| "divide_fp _ _ = NaN"

fun less_eq_fp :: "fp \<Rightarrow> fp \<Rightarrow> bool" where
  "less_eq_fp (Fin a) (Fin b) = (a \<le> b)"
| "less_eq_fp _ _ = False"

fun less_fp :: "fp \<Rightarrow> fp \<Rightarrow> bool" where
  "less_fp (Fin a) (Fin b) = (a < b)"
| "less_fp _ _ = False"

instance ..

end

text \<open>
  The unit triangle again, with a NaN in the metric of the vertex 0, and the environment
  of the examples for this number type.
\<close>

definition nan_triangle :: "fp mesh" where
  "nan_triangle =
     \<lparr>ndims = 2, coords = map Fin [0, 0, 1, 0, 0, 1],
      metric = [NaN, Fin 0, Fin 0, Fin 1] @ map Fin [1, 0, 0, 1, 1, 0, 0, 1],
      ENList = [0, 1, 2], NNList = [[1, 2], [0, 2], [0, 1]], NEList = [[0], [0], [0]],
      recv = [[]], send = [[]], recv_halo = {}, send_halo = {}\<rparr>"

definition fp_ext :: "fp ext" where
  "fp_ext =
     \<lparr>calc_edge_length = (\<lambda>m a b. Fin 1), property_length = (\<lambda>x0 x1 m. Fin 1),
      property_area = (\<lambda>x0 x1 x2. Fin 1), property_volume = (\<lambda>x0 x1 x2 x3. Fin 1),
      sqrt_r = (\<lambda>x. x), isnan = (\<lambda>x. x = NaN), mpi_scan = (\<lambda>n. int n),
      mpi_allreduce = (\<lambda>k x. x), halo_value = (\<lambda>v. v), past_end = (\<lambda>i. i),
      adjacency_NN = (\<lambda>m. NNList m), adjacency_NE = (\<lambda>m. NEList m)\<rparr>"

text \<open>
  For the two-split case: the edge between the vertices 1 and 2 has length 0, every other
  pair of vertices (the two diagonals among them) has length 1.
\<close>

definition two_split_ext :: "rat ext" where
  "two_split_ext = unit_ext\<lparr>calc_edge_length := (\<lambda>m a b. if a = 1 \<and> b = 2 then 0 else 1)\<rparr>"

text \<open>
  For the order of the arguments: a partition whose numbering starts at 8, where the
  memory behind \<open>lnn2gnn\<close> holds 5.
\<close>

definition behind_ext :: "rat ext" where
  "behind_ext = unit_ext\<lparr>past_end := (\<lambda>i. 5)\<rparr>"

text \<open>
  In the unit tetrahedron, the four edges \<open>(0,1)\<close>, \<open>(0,2)\<close>, \<open>(0,3)\<close> and \<open>(1,2)\<close> have
  length 2 and the edges \<open>(1,3)\<close> and \<open>(2,3)\<close> have length 0.
\<close>

definition four_long_ext :: "rat ext" where
  "four_long_ext =
     unit_ext\<lparr>calc_edge_length :=
       (\<lambda>m a b. if (a, b) \<in> {(0, 1), (0, 2), (0, 3), (1, 2)} then 2 else 0)\<rparr>"

text \<open>
  The unit tetrahedron at the start of the subdivision, with the new vertices 4, 5, 6, 7 on
  the four edges \<open>(0,1)\<close>, \<open>(0,2)\<close>, \<open>(0,3)\<close> and \<open>(1,2)\<close>.
\<close>

definition four_split_state :: "rat refine_state" where
  "four_split_state =
     (serial_state unit_tetrahedron)
       \<lparr>lnn2gnn := [0, 1, 2, 3],
        refined_edges := [[4, 0, 5, 0, 6, 0], [- 1, - 1, 7, 0, - 1, - 1],
                          [- 1, - 1, - 1, - 1, - 1, - 1], [- 1, - 1, - 1, - 1, - 1, - 1]]\<rparr>"

text \<open>The unit tetrahedron with a new vertex on each of its six edges.\<close>

definition six_split_state :: "rat refine_state" where
  "six_split_state =
     (serial_state unit_tetrahedron)
       \<lparr>lnn2gnn := [0, 1, 2, 3],
        refined_edges := [[4, 0, 5, 0, 6, 0], [- 1, - 1, 7, 0, 8, 0],
                          [- 1, - 1, - 1, - 1, 9, 0], [- 1, - 1, - 1, - 1, - 1, - 1]]\<rparr>"


text \<open>
  The unit triangle on the partition 1 of two partitions: the vertex 0 is owned by the
  partition 0 and received from it, and the numbering of the partition 1 starts at 3.
\<close>

definition shared_triangle :: "rat mesh" where
  "shared_triangle = unit_triangle\<lparr>recv := [[0], []], send := [[1, 2], []]\<rparr>"

definition two_rank_ext :: "rat ext" where
  "two_rank_ext = unit_ext\<lparr>mpi_scan := (\<lambda>n. int n + 3)\<rparr>"

definition two_rank_state :: "rat refine_state" where
  "two_rank_state = (serial_state shared_triangle)\<lparr>rank := 1, nprocs := 2\<rparr>"
section \<open>The new vertex of an edge, in the words of the specification\<close>

text \<open>
  "Let x0,m0 be the endpoint with lower GID, x1,m1 the other.  Define
  w = 1 / (1 + sqrt(L(x0,x1,m0) / L(x0,x1,m1))) where L is the metric length.  The new
  vertex is at x0 + w(x1 - x0); its metric is m0 + w(m1 - m0) (component-wise, treating the
  symmetric matrix as d*d entries)."  Here \<open>lo\<close> is the end point with the lower global
  number and \<open>hi\<close> the other.
\<close>

definition spec_w :: "'r::{one,plus,inverse} ext \<Rightarrow> 'r mesh \<Rightarrow> index_t \<Rightarrow> index_t \<Rightarrow> 'r" where
  "spec_w X m lo hi =
     1 / (1 + sqrt_r X (property_length X (get_coords m lo) (get_coords m hi) (get_metric m lo)
                        / property_length X (get_coords m lo) (get_coords m hi) (get_metric m hi)))"

definition spec_new_coords :: "'r::{one,plus,minus,times,inverse} ext \<Rightarrow> 'r mesh
     \<Rightarrow> index_t \<Rightarrow> index_t \<Rightarrow> 'r list" where
  "spec_new_coords X m lo hi =
     map (\<lambda>i. get_coords m lo ! i + spec_w X m lo hi * (get_coords m hi ! i - get_coords m lo ! i))
       [0..<ndims m]"

definition spec_new_metric :: "'r::{one,plus,minus,times,inverse} ext \<Rightarrow> 'r mesh
     \<Rightarrow> index_t \<Rightarrow> index_t \<Rightarrow> 'r list" where
  "spec_new_metric X m lo hi =
     map (\<lambda>i. get_metric m lo ! i + spec_w X m lo hi * (get_metric m hi ! i - get_metric m lo ! i))
       [0..<ndims m * ndims m]"

section \<open>Well-formed meshes\<close>

text \<open>
  What the code takes for granted of its mesh.  The arrays have the lengths that go with
  the counts of vertices and elements ("coordinate/metric arrays ... have length equal to
  the current vertex count").  The vertices of an element that is not erased are vertices of
  the mesh, and each is in the neighbour list of every other.  The neighbours of a vertex
  are vertices of the mesh.
\<close>

definition arrays_wf :: "'r mesh \<Rightarrow> bool" where
  "arrays_wf m \<longleftrightarrow>
     (ndims m = 2 \<or> ndims m = 3)
     \<and> length (coords m) = ndims m * get_number_nodes m
     \<and> length (metric m) = ndims m * ndims m * get_number_nodes m
     \<and> length (NNList m) = get_number_nodes m
     \<and> length (NEList m) = get_number_nodes m
     \<and> length (ENList m) = nloc m * get_number_elements m"

definition element_wf :: "'r mesh \<Rightarrow> index_t list \<Rightarrow> bool" where
  "element_wf m n \<longleftrightarrow>
     list_all (\<lambda>j. list_all (\<lambda>k. j = k \<or>
         (0 \<le> n ! j \<and> nat (n ! j) < get_number_nodes m \<and> n ! k \<in> set (NNList m ! nat (n ! j))))
       [0..<nloc m]) [0..<nloc m]"

definition elements_wf :: "'r mesh \<Rightarrow> bool" where
  "elements_wf m \<longleftrightarrow>
     list_all (\<lambda>i. get_element m i ! 0 < 0 \<or> element_wf m (get_element m i))
       [0..<get_number_elements m]"

definition neighbours_wf :: "'r mesh \<Rightarrow> bool" where
  "neighbours_wf m \<longleftrightarrow>
     list_all (\<lambda>i. list_all (\<lambda>u. 0 \<le> u \<and> nat u < get_number_nodes m) (NNList m ! i))
       [0..<get_number_nodes m]"

text \<open>
  No edge is longer than the bound: for no vertex and no neighbour of it the test
  \<open>length > L_max\<close> of the code succeeds.
\<close>

definition no_long_edge :: "'r::ord ext \<Rightarrow> 'r \<Rightarrow> 'r mesh \<Rightarrow> bool" where
  "no_long_edge X L_max m \<longleftrightarrow>
     list_all (\<lambda>i. list_all (\<lambda>u. \<not> calc_edge_length X m (int i) u > L_max) (NNList m ! i))
       [0..<get_number_nodes m]"

text \<open>The table \<open>refined_edges\<close> of the first \<open>n\<close> vertices when no edge is selected.\<close>

definition unset_rows :: "'r mesh \<Rightarrow> nat \<Rightarrow> index_t list list" where
  "unset_rows m n = map (\<lambda>i. replicate (2 * length (NNList m ! i)) (- 1)) [0..<n]"

text \<open>
  The test of the selection pass for the neighbour at the position \<open>it\<close> of the vertex
  \<open>i\<close>: the global number of \<open>i\<close> is the lesser one and the length exceeds the bound.
\<close>

definition long_edge :: "'r::ord ext \<Rightarrow> 'r \<Rightarrow> 'r refine_state \<Rightarrow> nat \<Rightarrow> nat \<Rightarrow> bool" where
  "long_edge X L_max S i it \<longleftrightarrow>
     gnn_at X (lnn2gnn S) (int i) < gnn_at X (lnn2gnn S) (NNList (mesh S) ! i ! it)
     \<and> calc_edge_length X (mesh S) (int i) (NNList (mesh S) ! i ! it) > L_max"

text \<open>
  What holds of the list \<open>newVertices\<close> up to the insertion of the vertices: it has
  \<open>splitCnt\<close> entries, each the pair of the global numbers of two vertices of the mesh; and
  the members of the object and the mesh are those of the state \<open>S0\<close>.
\<close>

definition new_vertices_inv :: "nat \<Rightarrow> 'r refine_state \<Rightarrow> 'r refine_state \<Rightarrow> bool" where
  "new_vertices_inv N S0 S \<longleftrightarrow>
     mesh S = mesh S0 \<and> lnn2gnn S = lnn2gnn S0 \<and> gnn2lnn S = gnn2lnn S0
     \<and> node_owner S = node_owner S0 \<and> nprocs S = nprocs S0 \<and> rank S = rank S0
     \<and> length (newVertices S) = splitCnt S
     \<and> (\<forall>v \<in> set (newVertices S).
           \<exists>a b. a < N \<and> b < N \<and> edge v = (lnn2gnn S0 ! a, lnn2gnn S0 ! b) \<and> id_e v = None)"

text \<open>The members of the object and the list of the new vertices are the same in two states.\<close>

definition same_members :: "'r refine_state \<Rightarrow> 'r refine_state \<Rightarrow> bool" where
  "same_members S S' \<longleftrightarrow>
     lnn2gnn S' = lnn2gnn S \<and> gnn2lnn S' = gnn2lnn S \<and> node_owner S' = node_owner S
     \<and> newVertices S' = newVertices S \<and> nprocs S' = nprocs S \<and> rank S' = rank S"


text \<open>
  Every global number of the list \<open>l\<close> is a key of the map \<open>g\<close>, and the local number
  found under it is that of a vertex with this global number.
\<close>

definition lookup_wf :: "nat \<Rightarrow> index_t list \<Rightarrow> (index_t \<Rightarrow> index_t option) \<Rightarrow> bool" where
  "lookup_wf N l g \<longleftrightarrow> (\<forall>a < N. \<exists>a' < N. g (l ! a) = Some (int a') \<and> l ! a' = l ! a)"

text \<open>
  What holds of the buffers during the selection pass that began in the state \<open>S0\<close>: mesh
  and numbering are those of \<open>S0\<close>, and the buffers hold one directed edge, \<open>ndims\<close>
  coordinates and \<open>ndims*ndims\<close> metric values for each of the \<open>splitCnt\<close> new vertices.
\<close>

definition staging_inv :: "'r refine_state \<Rightarrow> 'r refine_state \<Rightarrow> bool" where
  "staging_inv S0 T \<longleftrightarrow>
     mesh T = mesh S0 \<and> lnn2gnn T = lnn2gnn S0
     \<and> length (newVertices T) = splitCnt T
     \<and> length (newCoords T) = ndims (mesh S0) * splitCnt T
     \<and> length (newMetric T) = ndims (mesh S0) * ndims (mesh S0) * splitCnt T"

text \<open>The buffers of \<open>T'\<close> are those of \<open>T\<close> with entries appended.\<close>

definition grown :: "'r refine_state \<Rightarrow> 'r refine_state \<Rightarrow> bool" where
  "grown T T' \<longleftrightarrow>
     (\<exists>vs. newVertices T' = newVertices T @ vs)
     \<and> (\<exists>cs. newCoords T' = newCoords T @ cs)
     \<and> (\<exists>ms. newMetric T' = newMetric T @ ms)"

text \<open>
  In the state \<open>T\<close> a new vertex is staged for the neighbour at the position \<open>it\<close> of the
  vertex \<open>i\<close>: the slot \<open>2*it\<close> holds an index \<open>k\<close> into the buffers, the slot \<open>2*it+1\<close> the
  worker 0, and the entry \<open>k\<close> of \<open>newVertices\<close>, the \<open>ndims\<close> coordinates and the
  \<open>ndims*ndims\<close> metric values that go with it are what refine_edge appends for the two end
  points (here to the buffers of \<open>S0\<close>, which are empty at the start of the pass).
\<close>

definition staged_vertex :: "'r::{one,plus,minus,times,inverse} ext \<Rightarrow> 'r refine_state
     \<Rightarrow> 'r refine_state \<Rightarrow> nat \<Rightarrow> nat \<Rightarrow> bool" where
  "staged_vertex X S0 T i it \<longleftrightarrow>
     (let d = ndims (mesh S0);
          s = refined_edges T ! i ! (2 * it);
          k = nat s;
          R = refine_edge X (int i) (NNList (mesh S0) ! i ! it) S0
      in 0 \<le> s \<and> refined_edges T ! i ! (2 * it + 1) = 0
         \<and> k < length (newVertices T) \<and> [newVertices T ! k] = newVertices R
         \<and> take d (drop (d * k) (newCoords T)) = newCoords R
         \<and> take (d * d) (drop (d * d * k) (newMetric T)) = newMetric R)"

text \<open>
  Two bounds are exceeded by the same edges: the test \<open>length > L_max\<close> has the same
  outcome with either, for every vertex and every neighbour of it.
\<close>

definition same_long_edges :: "'r::ord ext \<Rightarrow> 'r \<Rightarrow> 'r \<Rightarrow> 'r mesh \<Rightarrow> bool" where
  "same_long_edges X L L' m \<longleftrightarrow>
     list_all (\<lambda>i. list_all (\<lambda>u. (calc_edge_length X m (int i) u > L)
                                   = (calc_edge_length X m (int i) u > L')) (NNList m ! i))
       [0..<get_number_nodes m]"
section \<open>Loops\<close>

lemma fold_preserves:
  assumes "\<And>x s. x \<in> set xs \<Longrightarrow> P s \<Longrightarrow> P (f x s)" and "P s"
  shows "P (fold f xs s)"
  using assms by (induction xs arbitrary: s) simp_all

lemma fold_f_preserves:
  assumes "\<And>x s s'. x \<in> set xs \<Longrightarrow> P s \<Longrightarrow> f x s = Inr s' \<Longrightarrow> P s'"
    and "P s" and "fold_f f xs s = Inr s'"
  shows "P s'"
  using assms
proof (induction xs arbitrary: s)
  case Nil
  then show ?case by simp
next
  case (Cons x xs)
  from Cons.prems(3) obtain s1 where s1: "f x s = Inr s1" and r: "fold_f f xs s1 = Inr s'"
    by (cases "f x s") simp_all
  from Cons.prems(1) [of x s s1] Cons.prems(2) s1 have p1: "P s1"
    by simp
  have step: "P t'" if "y \<in> set xs" "P t" "f y t = Inr t'" for y t t'
    using Cons.prems(1) [of y t t'] that by simp
  from Cons.IH [OF step p1 r] show ?case .
qed

section \<open>Properties of the scan and of mark_edge\<close>

lemma scan_found:
  "n1 \<in> set (drop pos nn) \<Longrightarrow>
     \<exists>p. scan nn n1 pos = Inr p \<and> pos \<le> p \<and> p < length nn \<and> nn ! p = n1"
proof (induction nn n1 pos rule: scan.induct)
  case (1 nn n1 pos)
  from "1.prems" have lt: "pos < length nn"
    by (cases "pos < length nn") auto
  show ?case
  proof (cases "nn ! pos = n1")
    case True
    with lt show ?thesis
      by (subst scan.simps) auto
  next
    case False
    from lt have "drop pos nn = nn ! pos # drop (Suc pos) nn"
      by (simp add: Cons_nth_drop_Suc)
    with "1.prems" False have "n1 \<in> set (drop (pos + 1) nn)"
      by auto
    with "1.IH" lt False obtain p where
      "scan nn n1 (pos + 1) = Inr p" "pos + 1 \<le> p" "p < length nn" "nn ! p = n1"
      by force
    with lt False show ?thesis
      by (subst scan.simps) auto
  qed
qed

lemma scan_missing:
  "n1 \<notin> set (drop pos nn) \<Longrightarrow> scan nn n1 pos = Inl OutOfBounds"
proof (induction nn n1 pos rule: scan.induct)
  case (1 nn n1 pos)
  show ?case
  proof (cases "pos < length nn")
    case False
    then show ?thesis
      by (subst scan.simps) simp
  next
    case True
    then have d: "drop pos nn = nn ! pos # drop (Suc pos) nn"
      by (simp add: Cons_nth_drop_Suc)
    with "1.prems" have ne: "nn ! pos \<noteq> n1" and "n1 \<notin> set (drop (pos + 1) nn)"
      by auto
    with "1.IH" True have "scan nn n1 (pos + 1) = Inl OutOfBounds"
      by simp
    with True ne show ?thesis
      by (subst scan.simps) simp
  qed
qed

text \<open>
  C10.  Let \<open>(a, b)\<close> be the end points of \<open>mark_edge(n0, n1)\<close> ordered by global number,
  \<open>a\<close> a vertex of the mesh, and \<open>refined_edges[a]\<close> twice as long as \<open>NNList[a]\<close>.  If
  \<open>b\<close> occurs in \<open>NNList[a]\<close>, the scan stops at a position \<open>pos\<close> inside \<open>NNList[a]\<close>
  where \<open>b\<close> stands, \<open>2*pos\<close> is inside \<open>refined_edges[a]\<close>, and mark_edge returns the
  table with that one slot set to \<open>index_max\<close>.  If \<open>b\<close> does not occur in \<open>NNList[a]\<close>,
  the scan runs past the end of the list.
\<close>

theorem mark_edge_precondition:
  assumes "order_by_gnn gnn n0 n1 = (a, b)"
    and "0 \<le> a" and "nat a < length (NNList m)"
    and "length re = length (NNList m)"
    and "length (re ! nat a) = 2 * length (NNList m ! nat a)"
  shows "(b \<in> set (NNList m ! nat a) \<longrightarrow>
            (\<exists>pos. scan (NNList m ! nat a) b 0 = Inr pos
               \<and> pos < length (NNList m ! nat a)
               \<and> NNList m ! nat a ! pos = b
               \<and> 2 * pos < length (re ! nat a)
               \<and> mark_edge m gnn n0 n1 re
                   = Inr (re[nat a := (re ! nat a)[2 * pos := index_max]])))
       \<and> (b \<notin> set (NNList m ! nat a) \<longrightarrow>
            scan (NNList m ! nat a) b 0 = Inl OutOfBounds
               \<and> mark_edge m gnn n0 n1 re = Inl OutOfBounds)"
proof -
  have found: "\<exists>pos. scan (NNList m ! nat a) b 0 = Inr pos
               \<and> pos < length (NNList m ! nat a)
               \<and> NNList m ! nat a ! pos = b
               \<and> 2 * pos < length (re ! nat a)
               \<and> mark_edge m gnn n0 n1 re
                   = Inr (re[nat a := (re ! nat a)[2 * pos := index_max]])"
    if "b \<in> set (NNList m ! nat a)"
  proof -
    from that have "b \<in> set (drop 0 (NNList m ! nat a))"
      by simp
    from scan_found [OF this] obtain p where
      p: "scan (NNList m ! nat a) b 0 = Inr p" "p < length (NNList m ! nat a)"
         "NNList m ! nat a ! p = b"
      by blast
    with assms have "mark_edge m gnn n0 n1 re
        = Inr (re[nat a := (re ! nat a)[2 * p := index_max]])"
      by (simp add: mark_edge_def)
    with p assms(5) show ?thesis
      by auto
  qed
  have missing: "scan (NNList m ! nat a) b 0 = Inl OutOfBounds
          \<and> mark_edge m gnn n0 n1 re = Inl OutOfBounds"
    if "b \<notin> set (NNList m ! nat a)"
  proof -
    from that have "b \<notin> set (drop 0 (NNList m ! nat a))"
      by simp
    from scan_missing [OF this] assms show ?thesis
      by (simp add: mark_edge_def)
  qed
  from found missing show ?thesis
    by blast
qed

theorem mark_edge_precondition_witness:
  "order_by_gnn (\<lambda>i. i) 2 0 = (0, 2)
   \<and> length [[- 1, - 1, - 1, - 1], [- 1, - 1, - 1, - 1], [- 1, - 1, - 1, - 1 :: int]]
       = length (NNList unit_triangle)
   \<and> 2 \<in> set (NNList unit_triangle ! nat 0)
   \<and> mark_edge unit_triangle (\<lambda>i. i) 2 0
        [[- 1, - 1, - 1, - 1], [- 1, - 1, - 1, - 1], [- 1, - 1, - 1, - 1]]
       = Inr [[- 1, - 1, index_max, - 1], [- 1, - 1, - 1, - 1], [- 1, - 1, - 1, - 1]]
   \<and> 3 \<notin> set (NNList unit_triangle ! nat 0)
   \<and> mark_edge unit_triangle (\<lambda>i. i) 3 0
        [[- 1, - 1, - 1, - 1], [- 1, - 1, - 1, - 1], [- 1, - 1, - 1, - 1]]
       = Inl OutOfBounds"
proof -
  let ?re = "[[- 1, - 1, - 1, - 1], [- 1, - 1, - 1, - 1], [- 1, - 1, - 1, - 1 :: int]]"
  have o2: "order_by_gnn (\<lambda>i. i) 2 0 = (0, 2)" and o3: "order_by_gnn (\<lambda>i. i) 3 0 = (0, 3)"
    by (simp_all add: order_by_gnn_def)
  have len: "length ?re = length (NNList unit_triangle)"
    and len0: "length (?re ! nat 0) = 2 * length (NNList unit_triangle ! nat 0)"
    and a: "nat 0 < length (NNList unit_triangle)"
    by (simp_all add: unit_triangle_def)
  have nn: "NNList unit_triangle ! nat 0 = [1, 2]"
    by (simp add: unit_triangle_def)
  have s1: "scan [1, 2] 2 0 = Inr (Suc 0)"
    by (simp add: scan.simps)
  from mark_edge_precondition [OF o2 _ a len len0] nn s1
  have m2: "mark_edge unit_triangle (\<lambda>i. i) 2 0 ?re
      = Inr [[- 1, - 1, index_max, - 1], [- 1, - 1, - 1, - 1], [- 1, - 1, - 1, - 1]]"
    by auto
  from mark_edge_precondition [OF o3 _ a len len0] nn
  have m3: "mark_edge unit_triangle (\<lambda>i. i) 3 0 ?re = Inl OutOfBounds"
    by simp
  from o2 len nn m2 m3 show ?thesis
    by simp
qed

section \<open>refine_edge: what it appends\<close>

lemma fold_push_coord:
  "fold (push_coord x0 x1 w) js S
     = S\<lparr>newCoords := newCoords S @ map (\<lambda>i. x0 ! i + w * (x1 ! i - x0 ! i)) js\<rparr>"
  by (induction js arbitrary: S) (simp_all add: push_coord_def)

lemma fold_push_metric:
  "fold (push_metric X m0 m1 w) js S
     = S\<lparr>newMetric := newMetric S @ map (\<lambda>i. m0 ! i + w * (m1 ! i - m0 ! i)) js,
          cerr := cerr S @ map (\<lambda>i. (m0 ! i, m1 ! i, w))
                    (filter (\<lambda>i. isnan X (m0 ! i + w * (m1 ! i - m0 ! i))) js)\<rparr>"
  by (induction js arbitrary: S) (simp_all add: push_metric_def Let_def)

lemma refine_edge_eq:
  "order_by_gnn (gnn_at X (lnn2gnn S)) n0 n1 = (a, b) \<Longrightarrow>
   refine_edge X n0 n1 S =
     (let x0 = get_coords (mesh S) a; m0 = get_metric (mesh S) a;
          x1 = get_coords (mesh S) b; m1 = get_metric (mesh S) b;
          w = edge_weight X x0 x1 m0 m1
      in S\<lparr>newVertices := newVertices S
               @ [\<lparr>edge = (gnn_at X (lnn2gnn S) a, gnn_at X (lnn2gnn S) b), id_e = None\<rparr>],
            newCoords := newCoords S @ map (\<lambda>i. x0 ! i + w * (x1 ! i - x0 ! i)) [0..<ndims (mesh S)],
            newMetric := newMetric S
               @ map (\<lambda>i. m0 ! i + w * (m1 ! i - m0 ! i)) [0..<ndims (mesh S) * ndims (mesh S)],
            cerr := cerr S @ map (\<lambda>i. (m0 ! i, m1 ! i, w))
                      (filter (\<lambda>i. isnan X (m0 ! i + w * (m1 ! i - m0 ! i)))
                         [0..<ndims (mesh S) * ndims (mesh S)])\<rparr>)"
  by (simp add: refine_edge_def fold_push_coord fold_push_metric Let_def)

lemma order_by_gnn_cases:
  obtains a b where "order_by_gnn gnn n0 n1 = (a, b)"
  by (cases "order_by_gnn gnn n0 n1") auto

lemma refine_edge_fields [simp]:
  "mesh (refine_edge X n0 n1 S) = mesh S"
  "lnn2gnn (refine_edge X n0 n1 S) = lnn2gnn S"
  "gnn2lnn (refine_edge X n0 n1 S) = gnn2lnn S"
  "node_owner (refine_edge X n0 n1 S) = node_owner S"
  "rank (refine_edge X n0 n1 S) = rank S"
  "nprocs (refine_edge X n0 n1 S) = nprocs S"
  "refined_edges (refine_edge X n0 n1 S) = refined_edges S"
  "newElements (refine_edge X n0 n1 S) = newElements S"
  "splitCnt (refine_edge X n0 n1 S) = splitCnt S"
  by (cases "order_by_gnn (gnn_at X (lnn2gnn S)) n0 n1"; simp add: refine_edge_eq Let_def)+

text \<open>
  C7.  Let \<open>a\<close> be the end point of the edge with the lower global number and \<open>b\<close> the
  other.  Whichever way round the two are passed, refine_edge appends to the buffer of
  coordinates the \<open>ndims\<close> values \<open>x0[i] + w*(x1[i] - x0[i])\<close> and to the buffer of the
  metric the \<open>ndims*ndims\<close> values \<open>m0[i] + w*(m1[i] - m0[i])\<close>, where \<open>x0, m0\<close> belong to
  \<open>a\<close>, \<open>x1, m1\<close> to \<open>b\<close> and \<open>w = 1/(1 + sqrt(L(x0,x1,m0)/L(x0,x1,m1)))\<close>.
\<close>

theorem refine_edge_new_vertex:
  assumes "gnn_at X (lnn2gnn S) a < gnn_at X (lnn2gnn S) b"
    and "(n0 = a \<and> n1 = b) \<or> (n0 = b \<and> n1 = a)"
  shows "newCoords (refine_edge X n0 n1 S) = newCoords S @ spec_new_coords X (mesh S) a b
       \<and> newMetric (refine_edge X n0 n1 S) = newMetric S @ spec_new_metric X (mesh S) a b"
proof -
  from assms have "order_by_gnn (gnn_at X (lnn2gnn S)) n0 n1 = (a, b)"
    by (auto simp: order_by_gnn_def)
  then show ?thesis
    by (simp add: refine_edge_eq Let_def spec_new_coords_def spec_new_metric_def spec_w_def
        edge_weight_def)
qed

theorem refine_edge_new_vertex_witness:
  "gnn_at unit_ext (lnn2gnn ((serial_state unit_triangle)\<lparr>lnn2gnn := [0, 1, 2]\<rparr>)) 0
     < gnn_at unit_ext (lnn2gnn ((serial_state unit_triangle)\<lparr>lnn2gnn := [0, 1, 2]\<rparr>)) 1
   \<and> newCoords (refine_edge unit_ext 1 0 ((serial_state unit_triangle)\<lparr>lnn2gnn := [0, 1, 2]\<rparr>))
       = [1 / 2, 0]
   \<and> newMetric (refine_edge unit_ext 1 0 ((serial_state unit_triangle)\<lparr>lnn2gnn := [0, 1, 2]\<rparr>))
       = [1, 0, 0, 1]"
proof -
  let ?S = "(serial_state unit_triangle)\<lparr>lnn2gnn := [0, 1, 2]\<rparr>"
  have lt: "gnn_at unit_ext (lnn2gnn ?S) 0 < gnn_at unit_ext (lnn2gnn ?S) 1"
    by (simp add: gnn_at_def)
  have c: "spec_new_coords unit_ext (mesh ?S) 0 1 = [1 / 2, 0]"
    by code_simp
  have m: "spec_new_metric unit_ext (mesh ?S) 0 1 = [1, 0, 0, 1]"
    by code_simp
  have e: "newCoords ?S = []" "newMetric ?S = []"
    by (simp_all add: serial_state_def)
  from refine_edge_new_vertex [OF lt, of 1 0] lt c m e show ?thesis
    by simp
qed

text \<open>
  C3 (as the code has it).  refine_edge has no failure: a metric entry that is NaN is
  appended to the buffer like every other entry, and one message with \<open>m0[i]\<close>, \<open>m1[i]\<close>
  and the weight goes to \<open>std::cerr\<close> for each such entry; then the call returns.
\<close>

theorem refine_edge_nan_is_logged:
  assumes "order_by_gnn (gnn_at X (lnn2gnn S)) n0 n1 = (a, b)"
  shows "newMetric (refine_edge X n0 n1 S)
           = newMetric S @ spec_new_metric X (mesh S) a b
       \<and> cerr (refine_edge X n0 n1 S)
           = cerr S @ map (\<lambda>i. (get_metric (mesh S) a ! i, get_metric (mesh S) b ! i,
                                  spec_w X (mesh S) a b))
                       (filter (\<lambda>i. isnan X (spec_new_metric X (mesh S) a b ! i))
                          [0..<ndims (mesh S) * ndims (mesh S)])"
proof -
  have "filter (\<lambda>i. isnan X (spec_new_metric X (mesh S) a b ! i)) [0..<ndims (mesh S) * ndims (mesh S)]
      = filter (\<lambda>i. isnan X (get_metric (mesh S) a ! i
                 + spec_w X (mesh S) a b * (get_metric (mesh S) b ! i - get_metric (mesh S) a ! i)))
          [0..<ndims (mesh S) * ndims (mesh S)]"
    by (rule filter_cong) (simp_all add: spec_new_metric_def)
  with assms show ?thesis
    by (simp add: refine_edge_eq Let_def spec_new_metric_def spec_w_def edge_weight_def)
qed

theorem refine_edge_nan_is_logged_witness:
  "order_by_gnn (gnn_at fp_ext (lnn2gnn ((serial_state nan_triangle)\<lparr>lnn2gnn := [0, 1, 2]\<rparr>))) 0 1
     = (0, 1)
   \<and> newMetric (refine_edge fp_ext 0 1 ((serial_state nan_triangle)\<lparr>lnn2gnn := [0, 1, 2]\<rparr>))
       = [NaN, Fin 0, Fin 0, Fin 1]
   \<and> cerr (refine_edge fp_ext 0 1 ((serial_state nan_triangle)\<lparr>lnn2gnn := [0, 1, 2]\<rparr>))
       = [(NaN, Fin 1, Fin (1 / 2))]"
proof -
  let ?S = "(serial_state nan_triangle)\<lparr>lnn2gnn := [0, 1, 2]\<rparr>"
  have o: "order_by_gnn (gnn_at fp_ext (lnn2gnn ?S)) 0 1 = (0, 1)"
    by (simp add: order_by_gnn_def gnn_at_def)
  have m: "spec_new_metric fp_ext (mesh ?S) 0 1 = [NaN, Fin 0, Fin 0, Fin 1]"
    by code_simp
  have w: "spec_w fp_ext (mesh ?S) 0 1 = Fin (1 / 2)"
    by code_simp
  have g: "get_metric (mesh ?S) 0 = [NaN, Fin 0, Fin 0, Fin 1] @ map Fin [1, 0, 0, 1, 1, 0, 0, 1]"
    "get_metric (mesh ?S) 1 = map Fin [1, 0, 0, 1, 1, 0, 0, 1]"
    "ndims (mesh ?S) = 2"
    by (simp_all add: get_metric_def serial_state_def nan_triangle_def)
  have e: "newMetric ?S = []" "cerr ?S = []"
    by (simp_all add: serial_state_def)
  have f: "filter (\<lambda>i. isnan fp_ext ([NaN, Fin 0, Fin 0, Fin 1] ! i)) [0..<2 * 2] = [0]"
    by code_simp
  from refine_edge_nan_is_logged [OF o] o m w g e f show ?thesis
    by simp
qed

text \<open>
  C3 as stated fails.  On the triangle with a NaN in the metric of the vertex 0 and the bound
  1/2, refine returns, and the metric of the mesh holds the NaN entries of the two new
  vertices on the edges of the vertex 0; two messages were written.
\<close>

theorem refine_nan_counterexample:
  "on_return (metric \<circ> mesh) (refine fp_ext (Fin (1 / 2)) (serial_state nan_triangle))
     = Some ([NaN, Fin 0, Fin 0, Fin 1, Fin 1, Fin 0, Fin 0, Fin 1, Fin 1, Fin 0, Fin 0, Fin 1,
              NaN, Fin 0, Fin 0, Fin 1, NaN, Fin 0, Fin 0, Fin 1, Fin 1, Fin 0, Fin 0, Fin 1])
   \<and> on_return cerr (refine fp_ext (Fin (1 / 2)) (serial_state nan_triangle))
     = Some [(NaN, Fin 1, Fin (1 / 2)), (NaN, Fin 1, Fin (1 / 2))]"
  by code_simp

section \<open>The two-split case in two dimensions\<close>

text \<open>
  C5 (as the code has it).  Let the edge opposite the vertex \<open>n[j]\<close> be the one without a
  new vertex, \<open>r\<close> the element rotated to start at \<open>n[j]\<close>, \<open>v0\<close> the new vertex opposite
  \<open>r[1]\<close> and \<open>v1\<close> the one opposite \<open>r[2]\<close>.  The diagonal is chosen by strict less-than:
  it is the first one, from \<open>v0\<close> to \<open>r[1]\<close>, when its length is less than the length of
  the second; in every other case, equal lengths among them, it is the second one, from
  \<open>v1\<close> to \<open>r[2]\<close>.
\<close>

theorem two_split_diagonal:
  assumes "first_index (\<lambda>v. v < 0) newVertex 0 = Some j"
    and "r = rotate3 n j"
    and "v0 = newVertex ! ((j + 1) mod 3)" and "v1 = newVertex ! ((j + 2) mod 3)"
  shows "template_2d_2 X m gnn n newVertex =
           (if ldiag0 X m gnn [v0, v1] r < ldiag1 X m gnn [v0, v1] r
            then Inr [[r ! 0, v1, v0], [v0, r ! 1, r ! 2], [v0, v1, r ! 1]]
            else Inr [[r ! 0, v1, v0], [v1, r ! 1, r ! 2], [v0, v1, r ! 2]])"
  using assms by (simp add: template_2d_2_def diagonal_offset_def Let_def numeral_2_eq_2)

theorem two_split_diagonal_witness:
  "first_index (\<lambda>v. v < 0) [- 1, 4, 3 :: int] 0 = Some 0
   \<and> [0, 1, 2] = rotate3 [0, 1, 2] 0
   \<and> \<not> ldiag0 two_split_ext unit_triangle (\<lambda>i. i) [4, 3] [0, 1, 2]
         < ldiag1 two_split_ext unit_triangle (\<lambda>i. i) [4, 3] [0, 1, 2]
   \<and> template_2d_2 two_split_ext unit_triangle (\<lambda>i. i) [0, 1, 2] [- 1, 4, 3]
       = Inr [[0, 3, 4], [3, 1, 2], [4, 3, 2]]"
proof -
  have f: "first_index (\<lambda>v. v < 0) [- 1, 4, 3 :: int] 0 = Some 0"
    by simp
  have r: "[0, 1, 2] = rotate3 [0, 1, 2] 0"
    by code_simp
  have l: "\<not> ldiag0 two_split_ext unit_triangle (\<lambda>i. i) [4, 3] [0, 1, 2]
         < ldiag1 two_split_ext unit_triangle (\<lambda>i. i) [4, 3] [0, 1, 2]"
    by code_simp
  from two_split_diagonal [OF f r, of 4 3 two_split_ext unit_triangle "\<lambda>i. i"] f r l
  show ?thesis
    by simp
qed

text \<open>
  C5 as stated fails.  In the unit triangle with the bound 1/2, where the edges from the
  vertex 0 are split by the new vertices 3 and 4, the two diagonals have the same length,
  and refine leaves the children \<open>(0,3,4)\<close>, \<open>(3,1,2)\<close> and \<open>(4,3,2)\<close>: the quadrilateral is
  cut along the second diagonal, from the vertex 3 to the vertex 2.
\<close>

theorem two_split_tie_counterexample:
  "ldiag0 two_split_ext unit_triangle (gnn_at two_split_ext [0, 1, 2]) [4, 3] [0, 1, 2]
     = ldiag1 two_split_ext unit_triangle (gnn_at two_split_ext [0, 1, 2]) [4, 3] [0, 1, 2]
   \<and> on_return (ENList \<circ> mesh) (refine two_split_ext (1 / 2) (serial_state unit_triangle))
     = Some [- 1, 1, 2, 0, 3, 4, 3, 1, 2, 4, 3, 2]
   \<and> on_return refined_edges (refine two_split_ext (1 / 2) (serial_state unit_triangle))
     = Some [[3, 0, 4, 0], [- 1, - 1, - 1, - 1], [- 1, - 1, - 1, - 1]]"
  by code_simp

text \<open>
  C6: the code at a failing input.  On a partition whose vertices 0, 1, 2 have the global
  numbers 8, 9, 10, let the new vertices be 3 and 4, and let the read of \<open>lnn2gnn\<close> at 4,
  which is past the end of the vector, give 5.  The first diagonal compares two global
  numbers.  The second compares the global number read for the vertex 4 with the vertex
  number 2, and passes the vertex 2 first although its global number is the greater.
\<close>

theorem second_diagonal_argument_order:
  "ldiag0_args (gnn_at behind_ext [8, 9, 10]) [3, 4] [0, 1, 2] = (3, 1)
   \<and> gnn_at behind_ext [8, 9, 10] 3 < gnn_at behind_ext [8, 9, 10] 1
   \<and> ldiag1_args (gnn_at behind_ext [8, 9, 10]) [3, 4] [0, 1, 2] = (2, 4)
   \<and> gnn_at behind_ext [8, 9, 10] 4 < gnn_at behind_ext [8, 9, 10] 2"
  by code_simp

section \<open>Subdivision of a tetrahedron\<close>

lemma append_element_eq:
  assumes "length elem = nloc m"
  shows "append_element m elem EN = EN @ elem"
proof -
  have "fold (\<lambda>i EN. EN @ [elem ! i]) js EN = EN @ map (\<lambda>i. elem ! i) js" for js EN
    by (induction js arbitrary: EN) simp_all
  with assms [symmetric] show ?thesis
    by (simp add: append_element_def map_nth)
qed

lemma fold_append_element:
  "\<forall>c \<in> set children. length c = nloc m \<Longrightarrow>
     fold (append_element m) children EN = EN @ concat children"
  by (induction children arbitrary: EN) (simp_all add: append_element_eq)

lemma replace_element_eq:
  "\<forall>c \<in> set children. length c = nloc (mesh S) \<Longrightarrow>
     replace_element i children S =
       S\<lparr>newElements := newElements S @ concat children,
         splitCnt := splitCnt S + length children,
         mesh := erase_element (mesh S) i\<rparr>"
  by (simp add: replace_element_def fold_append_element)

text \<open>
  C2 (as the code has it).  refine has no error for a split pattern.  For a tetrahedron
  that is not erased, with \<open>vs\<close> the list of its split edges: without a split edge it is
  left as it is; with 2 or 3 split edges it is erased and 4 children are appended, with 6
  split edges 8 children, with 1 split edge, when exactly two of its vertices are not on
  that edge, 2 children; and for every count other than 1 the step returns without a fault
  and without a message on \<open>std::cerr\<close>.
\<close>

theorem subdivision_3d_reports_nothing:
  assumes d: "ndims (mesh S) = 3" and live: "\<not> get_element (mesh S) i ! 0 < 0"
    and vs: "element_split_edges X S (get_element (mesh S) i) = Inr vs"
  shows "(length vs = 0 \<longrightarrow> refine_element X i S = Inr S)
   \<and> (length vs = 1
        \<and> length (filter (\<lambda>v. \<not> contains (snd (vs ! 0)) v) (take 4 (get_element (mesh S) i))) = 2 \<longrightarrow>
        (\<exists>children. length children = 2 \<and> (\<forall>c \<in> set children. length c = 4)
           \<and> refine_element X i S
               = Inr (S\<lparr>newElements := newElements S @ concat children,
                        splitCnt := splitCnt S + 2, mesh := erase_element (mesh S) i\<rparr>)))
   \<and> (length vs = 2 \<or> length vs = 3 \<longrightarrow>
        (\<exists>children. length children = 4 \<and> (\<forall>c \<in> set children. length c = 4)
           \<and> refine_element X i S
               = Inr (S\<lparr>newElements := newElements S @ concat children,
                        splitCnt := splitCnt S + 4, mesh := erase_element (mesh S) i\<rparr>)))
   \<and> (length vs = 6 \<longrightarrow>
        (\<exists>children. length children = 8 \<and> (\<forall>c \<in> set children. length c = 4)
           \<and> refine_element X i S
               = Inr (S\<lparr>newElements := newElements S @ concat children,
                        splitCnt := splitCnt S + 8, mesh := erase_element (mesh S) i\<rparr>)))
   \<and> (length vs \<noteq> 1 \<longrightarrow> (\<exists>S'. refine_element X i S = Inr S' \<and> cerr S' = cerr S))"
proof -
  let ?n = "get_element (mesh S) i"
  let ?nv = "map fst vs" and ?se = "map snd vs"
  let ?R = "\<lambda>children. S\<lparr>newElements := newElements S @ concat children,
                        splitCnt := splitCnt S + length children,
                        mesh := erase_element (mesh S) i\<rparr>"
  from d have nl: "nloc (mesh S) = 4"
    by (simp add: nloc_def)
  from d live have re: "refine_element X i S =
      (case refine_element_3d X S ?n of
         Inl e \<Rightarrow> Inl e
       | Inr None \<Rightarrow> Inr S
       | Inr (Some children) \<Rightarrow> Inr (replace_element i children S))"
    by (simp add: refine_element_def Let_def)
  from vs have r3: "refine_element_3d X S ?n =
      (if length vs = 0 then Inr None
       else if length vs = 1 then map_sum (\<lambda>e. e) Some (template_3d_1 ?n ?nv ?se)
       else if length vs = 2 then Inr (Some (template_3d_2 ?nv ?se))
       else if length vs = 3 then Inr (Some (template_3d_3 ?n ?nv ?se))
       else if length vs = 6 then Inr (Some (template_3d_6 ?n ?nv))
       else Inr (Some []))"
    by (simp add: refine_element_3d_def Let_def)
  have c0: "refine_element X i S = Inr S" if "length vs = 0"
    by (simp add: re r3 that)
  have c1: "\<exists>children. length children = 2 \<and> (\<forall>c \<in> set children. length c = 4)
      \<and> refine_element X i S = Inr (S\<lparr>newElements := newElements S @ concat children,
                        splitCnt := splitCnt S + 2, mesh := erase_element (mesh S) i\<rparr>)"
    if one: "length vs = 1"
      and two: "length (filter (\<lambda>v. \<not> contains (snd (vs ! 0)) v) (take 4 ?n)) = 2"
  proof -
    from one have se0: "?se ! 0 = snd (vs ! 0)"
      by simp
    have "\<exists>ch. template_3d_1 ?n ?nv ?se = Inr ch \<and> length ch = 2 \<and> (\<forall>c \<in> set ch. length c = 4)"
      unfolding template_3d_1_def Let_def se0 two by simp
    then obtain ch where
      ch: "template_3d_1 ?n ?nv ?se = Inr ch" "length ch = 2" "\<forall>c \<in> set ch. length c = 4"
      by blast
    with one have "refine_element X i S = Inr (replace_element i ch S)"
      by (simp add: re r3)
    with ch nl show ?thesis
      by (auto simp: replace_element_eq)
  qed
  have l2: "length (template_3d_2 ?nv ?se) = 4" "\<forall>c \<in> set (template_3d_2 ?nv ?se). length c = 4"
    by (simp_all add: template_3d_2_def)
  have l3: "length (template_3d_3 ?n ?nv ?se) = 4"
    "\<forall>c \<in> set (template_3d_3 ?n ?nv ?se). length c = 4"
    by (simp_all add: template_3d_3_def Let_def)
  have l6: "length (template_3d_6 ?n ?nv) = 8" "\<forall>c \<in> set (template_3d_6 ?n ?nv). length c = 4"
    by (simp_all add: template_3d_6_def)
  have c2: "refine_element X i S = Inr (?R (template_3d_2 ?nv ?se))" if "length vs = 2"
    using l2 nl by (simp add: re r3 that replace_element_eq)
  have c3: "refine_element X i S = Inr (?R (template_3d_3 ?n ?nv ?se))" if "length vs = 3"
    using l3 nl by (simp add: re r3 that replace_element_eq)
  have c6: "refine_element X i S = Inr (?R (template_3d_6 ?n ?nv))" if "length vs = 6"
    using l6 nl by (simp add: re r3 that replace_element_eq)
  have cx: "refine_element X i S = Inr (?R [])"
    if "length vs \<noteq> 0" "length vs \<noteq> 1" "length vs \<noteq> 2" "length vs \<noteq> 3" "length vs \<noteq> 6"
    using that by (simp add: re r3 replace_element_eq)
  have c23: "\<exists>children. length children = 4 \<and> (\<forall>c \<in> set children. length c = 4)
      \<and> refine_element X i S = Inr (S\<lparr>newElements := newElements S @ concat children,
                        splitCnt := splitCnt S + 4, mesh := erase_element (mesh S) i\<rparr>)"
    if "length vs = 2 \<or> length vs = 3"
  proof -
    from that consider "length vs = 2" | "length vs = 3"
      by blast
    then show ?thesis
    proof cases
      case 1
      with c2 l2 show ?thesis
        by (intro exI [of _ "template_3d_2 ?nv ?se"]) simp
    next
      case 2
      with c3 l3 show ?thesis
        by (intro exI [of _ "template_3d_3 ?n ?nv ?se"]) simp
    qed
  qed
  have c6': "\<exists>children. length children = 8 \<and> (\<forall>c \<in> set children. length c = 4)
      \<and> refine_element X i S = Inr (S\<lparr>newElements := newElements S @ concat children,
                        splitCnt := splitCnt S + 8, mesh := erase_element (mesh S) i\<rparr>)"
    if "length vs = 6"
    using c6 [OF that] l6 by (intro exI [of _ "template_3d_6 ?n ?nv"]) simp
  have noerr: "\<exists>S'. refine_element X i S = Inr S' \<and> cerr S' = cerr S" if ne1: "length vs \<noteq> 1"
  proof -
    consider "length vs = 0" | "length vs = 2" | "length vs = 3" | "length vs = 6"
      | "length vs \<noteq> 0" "length vs \<noteq> 1" "length vs \<noteq> 2" "length vs \<noteq> 3" "length vs \<noteq> 6"
      using ne1 by blast
    then show ?thesis
    proof cases
      case 1
      from c0 [OF 1] show ?thesis
        by simp
    next
      case 2
      from c2 [OF 2] show ?thesis
        by simp
    next
      case 3
      from c3 [OF 3] show ?thesis
        by simp
    next
      case 4
      from c6 [OF 4] show ?thesis
        by simp
    next
      case 5
      from cx [OF 5] show ?thesis
        by simp
    qed
  qed
  show ?thesis
  proof (intro conjI impI)
    assume "length vs = 0"
    then show "refine_element X i S = Inr S"
      by (rule c0)
  next
    assume "length vs = 1
        \<and> length (filter (\<lambda>v. \<not> contains (snd (vs ! 0)) v) (take 4 ?n)) = 2"
    then show "\<exists>children. length children = 2 \<and> (\<forall>c \<in> set children. length c = 4)
        \<and> refine_element X i S = Inr (S\<lparr>newElements := newElements S @ concat children,
                        splitCnt := splitCnt S + 2, mesh := erase_element (mesh S) i\<rparr>)"
      using c1 by blast
  next
    assume "length vs = 2 \<or> length vs = 3"
    then show "\<exists>children. length children = 4 \<and> (\<forall>c \<in> set children. length c = 4)
        \<and> refine_element X i S = Inr (S\<lparr>newElements := newElements S @ concat children,
                        splitCnt := splitCnt S + 4, mesh := erase_element (mesh S) i\<rparr>)"
      by (rule c23)
  next
    assume "length vs = 6"
    then show "\<exists>children. length children = 8 \<and> (\<forall>c \<in> set children. length c = 4)
        \<and> refine_element X i S = Inr (S\<lparr>newElements := newElements S @ concat children,
                        splitCnt := splitCnt S + 8, mesh := erase_element (mesh S) i\<rparr>)"
      by (rule c6')
  next
    assume "length vs \<noteq> 1"
    then show "\<exists>S'. refine_element X i S = Inr S' \<and> cerr S' = cerr S"
      by (rule noerr)
  qed
qed

theorem subdivision_3d_reports_nothing_witness:
  "ndims (mesh six_split_state) = 3
   \<and> \<not> get_element (mesh six_split_state) 0 ! 0 < 0
   \<and> element_split_edges unit_ext six_split_state (get_element (mesh six_split_state) 0)
       = Inr [(4, 0, 1), (5, 0, 2), (6, 0, 3), (7, 1, 2), (8, 1, 3), (9, 2, 3)]
   \<and> (\<exists>children. length children = 8 \<and> (\<forall>c \<in> set children. length c = 4)
         \<and> refine_element unit_ext 0 six_split_state
             = Inr (six_split_state\<lparr>newElements := newElements six_split_state @ concat children,
                      splitCnt := splitCnt six_split_state + 8,
                      mesh := erase_element (mesh six_split_state) 0\<rparr>))
   \<and> (\<exists>S'. refine_element unit_ext 0 six_split_state = Inr S' \<and> cerr S' = cerr six_split_state)"
proof -
  have d: "ndims (mesh six_split_state) = 3"
    by (simp add: six_split_state_def serial_state_def unit_tetrahedron_def)
  have live: "\<not> get_element (mesh six_split_state) 0 ! 0 < 0"
    by code_simp
  have vs: "element_split_edges unit_ext six_split_state (get_element (mesh six_split_state) 0)
       = Inr [(4, 0, 1), (5, 0, 2), (6, 0, 3), (7, 1, 2), (8, 1, 3), (9, 2, 3)]"
    by code_simp
  from subdivision_3d_reports_nothing [OF d live vs] d live vs show ?thesis
    by simp
qed

text \<open>
  C2 as stated fails.  The tetrahedron that reaches the subdivision with new vertices on
  four of its edges is erased, no child is appended, the step ends without a fault and
  nothing is written to \<open>std::cerr\<close>.
\<close>

theorem four_split_counterexample:
  "element_split_edges unit_ext four_split_state (get_element (mesh four_split_state) 0)
     = Inr [(4, 0, 1), (5, 0, 2), (6, 0, 3), (7, 1, 2)]
   \<and> fault_of (Some (refine_element unit_ext 0 four_split_state)) = None
   \<and> on_return newElements (Some (refine_element unit_ext 0 four_split_state)) = Some []
   \<and> on_return (ENList \<circ> mesh) (Some (refine_element unit_ext 0 four_split_state))
       = Some [- 1, 1, 2, 3]
   \<and> on_return cerr (Some (refine_element unit_ext 0 four_split_state)) = Some []"
  by code_simp

section \<open>The propagation loop at a tetrahedron with four long edges\<close>

text \<open>
  C1: the code at a failing input.  In the unit tetrahedron with the bound 1, the edges
  \<open>(0,1)\<close>, \<open>(0,2)\<close>, \<open>(0,3)\<close> and \<open>(1,2)\<close> are selected.  In the first iteration of the loop
  the element has four split edges, the case 4 marks the edges \<open>(1,3)\<close> and \<open>(2,3)\<close> and
  does not count them, \<open>new_edges_size\<close> is 0 and the loop is left: the table it leaves
  holds the mark \<open>index_max\<close> in two slots.  The run of refine then ends in the phase that
  fixes the numbers of the new vertices, where the slot beside such a mark is \<open>-1\<close> and
  \<open>threadIdx[-1]\<close> is read.
\<close>

theorem propagate_leaves_marks:
  "on_return refined_edges
     (propagate four_long_ext 4 1 0
        (select_edges four_long_ext 1 4 (start four_long_ext 4 (serial_state unit_tetrahedron))))
     = Some [[0, 0, 1, 0, 2, 0], [- 1, - 1, 3, 0, index_max, - 1],
             [- 1, - 1, - 1, - 1, index_max, - 1], [- 1, - 1, - 1, - 1, - 1, - 1]]
   \<and> fault_of (refine four_long_ext 1 (serial_state unit_tetrahedron)) = Some OutOfBounds"
  by code_simp

section \<open>A mesh without a long edge\<close>

lemma stage_edge_fields [simp]:
  "mesh (stage_edge i it S) = mesh S"
  "lnn2gnn (stage_edge i it S) = lnn2gnn S"
  "gnn2lnn (stage_edge i it S) = gnn2lnn S"
  "node_owner (stage_edge i it S) = node_owner S"
  "rank (stage_edge i it S) = rank S"
  "nprocs (stage_edge i it S) = nprocs S"
  "newElements (stage_edge i it S) = newElements S"
  "newVertices (stage_edge i it S) = newVertices S"
  "newCoords (stage_edge i it S) = newCoords S"
  "newMetric (stage_edge i it S) = newMetric S"
  "cerr (stage_edge i it S) = cerr S"
  "splitCnt (stage_edge i it S) = splitCnt S + 1"
  by (simp_all add: stage_edge_def)

lemma select_edge_short:
  "\<not> calc_edge_length X (mesh S) (int i) (NNList (mesh S) ! i ! it) > L_max \<Longrightarrow>
     select_edge X L_max i it S = S"
  by (simp add: select_edge_def Let_def)

lemma fold_select_edge_short:
  assumes "\<forall>u \<in> set (NNList (mesh S) ! i). \<not> calc_edge_length X (mesh S) (int i) u > L_max"
    and "set js \<subseteq> {..<length (NNList (mesh S) ! i)}"
  shows "fold (select_edge X L_max i) js S = S"
  using assms(2)
proof (induction js)
  case Nil
  then show ?case by simp
next
  case (Cons j js)
  then have "j < length (NNList (mesh S) ! i)"
    by simp
  then have "NNList (mesh S) ! i ! j \<in> set (NNList (mesh S) ! i)"
    by simp
  with assms(1) have "select_edge X L_max i j S = S"
    by (intro select_edge_short) blast
  with Cons show ?case
    by simp
qed

lemma select_vertex_short:
  assumes "\<forall>u \<in> set (NNList (mesh S) ! i). \<not> calc_edge_length X (mesh S) (int i) u > L_max"
  shows "select_vertex X L_max i S =
     S\<lparr>refined_edges := (refined_edges S)
          [i := resize_v (2 * length (NNList (mesh S) ! i)) (- 1) (refined_edges S ! i)]\<rparr>"
proof -
  let ?S = "S\<lparr>refined_edges := (refined_edges S)
          [i := resize_v (2 * length (NNList (mesh S) ! i)) (- 1) (refined_edges S ! i)]\<rparr>"
  from assms have "\<forall>u \<in> set (NNList (mesh ?S) ! i). \<not> calc_edge_length X (mesh ?S) (int i) u > L_max"
    by simp
  then have "fold (select_edge X L_max i) [0..<length (NNList (mesh ?S) ! i)] ?S = ?S"
    by (rule fold_select_edge_short) auto
  then show ?thesis
    by (simp add: select_vertex_def)
qed

lemma select_edges_short_upto:
  assumes short: "\<forall>i < N. \<forall>u \<in> set (NNList (mesh S) ! i). \<not> calc_edge_length X (mesh S) (int i) u > L_max"
    and re: "refined_edges S = replicate N []"
    and n: "n \<le> N"
  shows "fold (select_vertex X L_max) [0..<n] S =
     S\<lparr>refined_edges := unset_rows (mesh S) n @ replicate (N - n) []\<rparr>"
  using n
proof (induction n)
  case 0
  with re show ?case by (simp add: unset_rows_def)
next
  case (Suc n)
  let ?S = "S\<lparr>refined_edges := unset_rows (mesh S) n @ replicate (N - n) []\<rparr>"
  from Suc have f: "fold (select_vertex X L_max) [0..<n] S = ?S" and lt: "n < N"
    by simp_all
  from short lt have "\<forall>u \<in> set (NNList (mesh ?S) ! n). \<not> calc_edge_length X (mesh ?S) (int n) u > L_max"
    by simp
  from select_vertex_short [OF this]
  have sv: "select_vertex X L_max n ?S =
      ?S\<lparr>refined_edges := (refined_edges ?S)
          [n := resize_v (2 * length (NNList (mesh S) ! n)) (- 1) (refined_edges ?S ! n)]\<rparr>"
    by simp
  have len: "length (unset_rows (mesh S) n) = n"
    by (simp add: unset_rows_def)
  from lt have rep: "replicate (N - n) ([] :: index_t list) = [] # replicate (N - Suc n) []"
    by (cases "N - n") (simp_all add: Suc_diff_Suc)
  have row: "(unset_rows (mesh S) n @ replicate (N - n) []) ! n = []"
    using len rep by (simp add: nth_append)
  have upd: "(unset_rows (mesh S) n @ replicate (N - n) [])
        [n := replicate (2 * length (NNList (mesh S) ! n)) (- 1)]
      = unset_rows (mesh S) (Suc n) @ replicate (N - Suc n) []"
    using len rep by (simp add: list_update_append unset_rows_def)
  have "fold (select_vertex X L_max) [0..<Suc n] S = select_vertex X L_max n ?S"
    using f by simp
  also have "\<dots> = S\<lparr>refined_edges := unset_rows (mesh S) (Suc n) @ replicate (N - Suc n) []\<rparr>"
    by (simp add: sv row resize_v_def upd)
  finally show ?case .
qed

lemma fold_update_length:
  "length (fold (\<lambda>v own. own[f v := g v]) vs own) = length own"
  by (induction vs arbitrary: own) simp_all

lemma halo_update_length [simp]: "length (halo_update hv m l) = length l"
  by (simp add: halo_update_def fold_update_length)

lemma global_numbering_fields [simp]:
  "mesh (global_numbering X N S) = mesh S"
  "node_owner (global_numbering X N S) = node_owner S"
  "rank (global_numbering X N S) = rank S"
  "nprocs (global_numbering X N S) = nprocs S"
  "cerr (global_numbering X N S) = cerr S"
  "length (lnn2gnn (global_numbering X N S)) = N"
  by (simp_all add: global_numbering_def Let_def)

lemma node_ownership_fields [simp]:
  "mesh (node_ownership N S) = mesh S"
  "lnn2gnn (node_ownership N S) = lnn2gnn S"
  "gnn2lnn (node_ownership N S) = gnn2lnn S"
  "rank (node_ownership N S) = rank S"
  "nprocs (node_ownership N S) = nprocs S"
  "cerr (node_ownership N S) = cerr S"
  by (simp_all add: node_ownership_def Let_def)

lemma node_ownership_length [simp]: "length (node_owner (node_ownership N S)) = N"
proof -
  have "length (fold (\<lambda>i own. fold (\<lambda>v own. own[nat v := int i]) (r ! i) own) ps own) = length own"
    for ps own and r :: "index_t list list"
    by (induction ps arbitrary: own) (simp_all add: fold_update_length)
  then show ?thesis
    by (simp add: node_ownership_def Let_def)
qed

lemma start_fields [simp]:
  "mesh (start X N S) = mesh S"
  "rank (start X N S) = rank S"
  "nprocs (start X N S) = nprocs S"
  "cerr (start X N S) = cerr S"
  "refined_edges (start X N S) = replicate N []"
  "newVertices (start X N S) = []"
  "newCoords (start X N S) = []"
  "newMetric (start X N S) = []"
  "newElements (start X N S) = []"
  "splitCnt (start X N S) = 0"
  "length (node_owner (start X N S)) = N"
  "length (lnn2gnn (start X N S)) = N"
  by (simp_all add: start_def)

lemma get_new_vertex_unset:
  assumes a: "0 \<le> a" "nat a < N" and b: "0 \<le> b" "nat b < N"
    and ab: "b \<in> set (NNList m ! nat a)" and ba: "a \<in> set (NNList m ! nat b)"
    and len: "length (NNList m) = N"
  shows "get_new_vertex m gnn a b (unset_rows m N) = Inr (- 1)"
proof -
  have one: "get_new_vertex m gnn n0 n1 (unset_rows m N) = Inr (- 1)"
    if o: "order_by_gnn gnn n0 n1 = (c, d)" and c: "0 \<le> c" "nat c < N"
      and cd: "d \<in> set (NNList m ! nat c)" for n0 n1 c d
  proof -
    from cd have "d \<in> set (drop 0 (NNList m ! nat c))"
      by simp
    from scan_found [OF this] obtain p where
      p: "scan (NNList m ! nat c) d 0 = Inr p" "p < length (NNList m ! nat c)"
      by blast
    from c have row: "unset_rows m N ! nat c = replicate (2 * length (NNList m ! nat c)) (- 1)"
      by (simp add: unset_rows_def)
    have l: "length (unset_rows m N) = N"
      by (simp add: unset_rows_def)
    from p c len row l o show ?thesis
      by (simp add: get_new_vertex_def)
  qed
  show ?thesis
  proof (cases "gnn a > gnn b")
    case True
    then have "order_by_gnn gnn a b = (b, a)"
      by (simp add: order_by_gnn_def)
    from one [OF this b ba] show ?thesis .
  next
    case False
    then have "order_by_gnn gnn a b = (a, b)"
      by (simp add: order_by_gnn_def)
    from one [OF this a ab] show ?thesis .
  qed
qed

lemma element_wf_D:
  assumes "element_wf m n" and "j < nloc m" and "k < nloc m" and "j \<noteq> k"
  shows "0 \<le> n ! j" and "nat (n ! j) < get_number_nodes m"
    and "n ! k \<in> set (NNList m ! nat (n ! j))"
proof -
  from assms(1) have "\<forall>j < nloc m. \<forall>k < nloc m. j = k \<or>
      (0 \<le> n ! j \<and> nat (n ! j) < get_number_nodes m \<and> n ! k \<in> set (NNList m ! nat (n ! j)))"
    by (simp add: element_wf_def list_all_iff)
  with assms(2-4) show "0 \<le> n ! j" and "nat (n ! j) < get_number_nodes m"
    and "n ! k \<in> set (NNList m ! nat (n ! j))"
    by blast+
qed

lemma get_new_vertex_element:
  assumes wf: "element_wf m n" and len: "length (NNList m) = get_number_nodes m"
    and j: "j < nloc m" and k: "k < nloc m" and jk: "j \<noteq> k"
  shows "get_new_vertex m gnn (n ! j) (n ! k) (unset_rows m (get_number_nodes m)) = Inr (- 1)"
  using element_wf_D [OF wf j k jk] element_wf_D [OF wf k j jk [symmetric]] len
  by (intro get_new_vertex_unset) auto

lemma split_edges_unset:
  assumes "\<forall>(j, k) \<in> set ps. gnv (n ! j) (n ! k) = Inr (- 1)"
  shows "split_edges gnv n ps = Inr []"
  using assms by (induction ps) auto

lemma edge_pairs_D:
  "(j, k) \<in> set (edge_pairs nl) \<Longrightarrow> j < nl \<and> k < nl \<and> j \<noteq> k"
  by (auto simp: edge_pairs_def)

lemma fold_f_id:
  "\<forall>x \<in> set xs. f x s = Inr s \<Longrightarrow> fold_f f xs s = Inr s"
  by (induction xs) simp_all

lemma map_f_id:
  "\<forall>x \<in> set xs. f x = Inr x \<Longrightarrow> map_f f xs = Inr xs"
  by (induction xs) simp_all

lemma fix_ids_unset:
  "fix_ids threadIdx (replicate (2 * k) (- 1)) = Inr (replicate (2 * k) (- 1))"
  by (induction k) simp_all

lemma resize_v_same: "length v = n \<Longrightarrow> resize_v n x v = v"
  by (simp add: resize_v_def)

lemma memcpy_nothing: "length dst = off \<Longrightarrow> memcpy dst off [] 0 = Inr dst"
  by (simp add: memcpy_def)

lemma elements_wf_D:
  assumes "elements_wf m" and "i < get_number_elements m" and "\<not> get_element m i ! 0 < 0"
  shows "element_wf m (get_element m i)"
  using assms by (auto simp: elements_wf_def list_all_iff)

lemma element_split_none:
  assumes wf: "element_wf m n" and len: "length (NNList m) = get_number_nodes m"
  shows "split_edges (\<lambda>a b. get_new_vertex m gnn a b (unset_rows m (get_number_nodes m)))
           n (edge_pairs (nloc m)) = Inr []"
proof (rule split_edges_unset, clarify)
  fix j k
  assume "(j, k) \<in> set (edge_pairs (nloc m))"
  then have "j < nloc m" "k < nloc m" "j \<noteq> k"
    using edge_pairs_D by blast+
  with wf len show "get_new_vertex m gnn (n ! j) (n ! k) (unset_rows m (get_number_nodes m)) = Inr (- 1)"
    by (intro get_new_vertex_element)
qed

lemma propagate_element_unset:
  assumes wf: "element_wf m n" and len: "length (NNList m) = get_number_nodes m"
  shows "propagate_element m gnn n (unset_rows m (get_number_nodes m), c)
           = Inr (unset_rows m (get_number_nodes m), c)"
  by (simp add: propagate_element.simps element_split_none [OF wf len])

lemma propagate_sweep_unset:
  assumes wf: "elements_wf (mesh T)" and len: "length (NNList (mesh T)) = get_number_nodes (mesh T)"
    and re: "refined_edges T = unset_rows (mesh T) (get_number_nodes (mesh T))"
  shows "propagate_sweep X (get_number_elements (mesh T)) T = Inr (refined_edges T, 0)"
proof -
  have "propagate_step (mesh T) gnn i (refined_edges T, 0) = Inr (refined_edges T, 0)"
    if "i < get_number_elements (mesh T)" for i gnn
  proof (cases "get_element (mesh T) i ! 0 < 0")
    case True
    then show ?thesis
      by (simp add: propagate_step_def)
  next
    case False
    from elements_wf_D [OF wf that False] len show ?thesis
      by (simp add: propagate_step_def False re propagate_element_unset)
  qed
  then show ?thesis
    by (simp add: propagate_sweep_def fold_f_id)
qed

lemma propagate_unset:
  assumes wf: "elements_wf (mesh T)" and len: "length (NNList (mesh T)) = get_number_nodes (mesh T)"
    and re: "refined_edges T = unset_rows (mesh T) (get_number_nodes (mesh T))"
    and mpi: "nprocs T > 1 \<longrightarrow> mpi_allreduce X 0 0 = 0"
  shows "propagate X N (get_number_elements (mesh T)) 0 T = Some (Inr T)"
  using mpi by (subst propagate.simps) (simp add: propagate_sweep_unset [OF wf len re])

lemma unset_rows_fix:
  "map_f (fix_ids threadIdx) (unset_rows m N) = Inr (unset_rows m N)"
  by (rule map_f_id) (auto simp: unset_rows_def fix_ids_unset)

lemma insert_vertices_nothing:
  assumes wf: "arrays_wf (mesh T)" and N: "N = get_number_nodes (mesh T)"
    and re: "refined_edges T = unset_rows (mesh T) N"
    and nv: "newVertices T = []" "newCoords T = []" "newMetric T = []" "splitCnt T = 0"
    and own: "length (node_owner T) = N"
  shows "insert_vertices N T = Inr T"
proof -
  from wf N have l: "length (coords (mesh T)) = ndims (mesh T) * N"
    "length (metric (mesh T)) = ndims (mesh T) * ndims (mesh T) * N"
    "length (NNList (mesh T)) = N" "length (NEList (mesh T)) = N"
    by (simp_all add: arrays_wf_def)
  show ?thesis
    by (simp add: insert_vertices_def Let_def nv l own re resize_v_same memcpy_nothing
        unset_rows_fix assign_ids_def)
qed

lemma refine_element_2d_nothing:
  assumes wf: "element_wf (mesh T) n" and len: "length (NNList (mesh T)) = get_number_nodes (mesh T)"
    and d: "ndims (mesh T) = 2"
    and re: "refined_edges T = unset_rows (mesh T) (get_number_nodes (mesh T))"
  shows "refine_element_2d X T n = Inr None"
proof -
  from d have nl: "nloc (mesh T) = 3"
    by (simp add: nloc_def)
  have g: "get_new_vertex (mesh T) gnn (n ! j) (n ! k) (unset_rows (mesh T) (get_number_nodes (mesh T)))
      = Inr (- 1)" if "j < 3" "k < 3" "j \<noteq> k" for j k gnn
    using that nl by (intro get_new_vertex_element [OF wf len]) simp_all
  have "get_new_vertex (mesh T) gnn (n ! 1) (n ! 2) (refined_edges T) = Inr (- 1)"
    "get_new_vertex (mesh T) gnn (n ! 2) (n ! 0) (refined_edges T) = Inr (- 1)"
    "get_new_vertex (mesh T) gnn (n ! 0) (n ! 1) (refined_edges T) = Inr (- 1)" for gnn
    unfolding re by (rule g; simp)+
  then show ?thesis
    by (simp add: refine_element_2d_def Let_def)
qed

lemma refine_element_3d_nothing:
  assumes wf: "element_wf (mesh T) n" and len: "length (NNList (mesh T)) = get_number_nodes (mesh T)"
    and d: "ndims (mesh T) = 3"
    and re: "refined_edges T = unset_rows (mesh T) (get_number_nodes (mesh T))"
  shows "refine_element_3d X T n = Inr None"
proof -
  from d have nl: "nloc (mesh T) = 4"
    by (simp add: nloc_def)
  from element_split_none [OF wf len] have "element_split_edges X T n = Inr []"
    by (simp add: element_split_edges_def re nl)
  then show ?thesis
    by (simp add: refine_element_3d_def)
qed

lemma refine_element_nothing:
  assumes wf: "elements_wf (mesh T)" and awf: "arrays_wf (mesh T)"
    and re: "refined_edges T = unset_rows (mesh T) (get_number_nodes (mesh T))"
    and i: "i < get_number_elements (mesh T)"
  shows "refine_element X i T = Inr T"
proof (cases "get_element (mesh T) i ! 0 < 0")
  case True
  then show ?thesis
    by (simp add: refine_element_def)
next
  case False
  from awf have len: "length (NNList (mesh T)) = get_number_nodes (mesh T)"
    and d: "ndims (mesh T) = 2 \<or> ndims (mesh T) = 3"
    by (simp_all add: arrays_wf_def)
  from elements_wf_D [OF wf i False] have e: "element_wf (mesh T) (get_element (mesh T) i)" .
  from d show ?thesis
  proof
    assume "ndims (mesh T) = 2"
    with refine_element_2d_nothing [OF e len _ re] False show ?thesis
      by (simp add: refine_element_def)
  next
    assume "ndims (mesh T) = 3"
    with refine_element_3d_nothing [OF e len _ re] False show ?thesis
      by (simp add: refine_element_def)
  qed
qed

lemma refine_elements_nothing:
  assumes wf: "elements_wf (mesh T)" and awf: "arrays_wf (mesh T)"
    and re: "refined_edges T = unset_rows (mesh T) (get_number_nodes (mesh T))"
    and nv: "newElements T = []" "splitCnt T = 0"
  shows "refine_elements X (get_number_elements (mesh T)) T = Inr T"
proof -
  from nv have T: "T\<lparr>splitCnt := 0\<rparr> = T"
    by simp
  have f: "fold_f (refine_element X) [0..<get_number_elements (mesh T)] T = Inr T"
    by (rule fold_f_id) (simp add: refine_element_nothing [OF wf awf re])
  from awf have l: "length (ENList (mesh T)) = nloc (mesh T) * get_number_elements (mesh T)"
    by (simp add: arrays_wf_def)
  show ?thesis
    by (simp add: refine_elements_def T f Let_def nv l resize_v_same memcpy_nothing)
qed

lemma push_ids_nothing: "push_ids (replicate np []) ls np = ls"
proof -
  have "fold (\<lambda>i ls. ls[i := ls ! i @ map f (replicate np [] ! i)]) js ls = ls"
    if "set js \<subseteq> {..<np}" for js f and ls :: "index_t list list"
    using that by (induction js arbitrary: ls) simp_all
  moreover have "set [0..<np] \<subseteq> {..<np}"
    by auto
  ultimately show ?thesis
    unfolding push_ids_def by blast
qed

lemma insert_ids_nothing: "insert_ids (replicate np []) h np = h"
proof -
  have "fold (\<lambda>i h. fold g (replicate np [] ! i) h) js h = h"
    if "set js \<subseteq> {..<np}" for js h and g :: "DirectedEdge \<Rightarrow> index_t set \<Rightarrow> index_t set"
    using that by (induction js arbitrary: h) simp_all
  moreover have "set [0..<np] \<subseteq> {..<np}"
    by auto
  ultimately show ?thesis
    unfolding insert_ids_def by blast
qed

lemma amend_halo_nothing:
  assumes "newVertices T = []" and "length (node_owner T) = N"
  shows "amend_halo oN E N E T = Inr T"
  using assms by (simp add: amend_halo_def push_ids_nothing insert_ids_nothing)

lemma finalise_nothing:
  assumes awf: "arrays_wf (mesh T)" and nv: "newVertices T = []"
    and own: "length (node_owner T) = get_number_nodes (mesh T)"
    and oE: "oE = get_number_elements (mesh T)"
  shows "finalise X oN oE T =
     Inr (T\<lparr>mesh := (mesh T)\<lparr>NNList := adjacency_NN X (mesh T), NEList := adjacency_NE X (mesh T)\<rparr>\<rparr>)"
  by (simp add: finalise_def Let_def oE amend_halo_nothing [OF nv own])

text \<open>
  C9.  Let the mesh be well formed and let no edge be longer than the bound: for every
  vertex and every neighbour of it, the test \<open>length > L_max\<close> fails (as it does when the
  length is at most \<open>L_max\<close>); with several partitions, let the other partitions have marked
  no edge either.  Then refine returns, no vertex and no element has been appended, and
  the mesh is the mesh of the call with the adjacency lists built again: the coordinates,
  the metric, the elements and the halo are what they were.
\<close>

theorem refine_short_edges_unchanged:
  assumes awf: "arrays_wf (mesh S)" and ewf: "elements_wf (mesh S)"
    and short: "no_long_edge X L_max (mesh S)"
    and mpi: "nprocs S > 1 \<longrightarrow> mpi_allreduce X 0 0 = 0"
  shows "on_return mesh (refine X L_max S)
           = Some ((mesh S)\<lparr>NNList := adjacency_NN X (mesh S), NEList := adjacency_NE X (mesh S)\<rparr>)
       \<and> on_return newVertices (refine X L_max S) = Some []
       \<and> on_return newElements (refine X L_max S) = Some []"
proof -
  let ?N = "get_number_nodes (mesh S)" and ?E = "get_number_elements (mesh S)"
  let ?S1 = "start X ?N S"
  let ?T = "?S1\<lparr>refined_edges := unset_rows (mesh S) ?N\<rparr>"
  from short have "\<forall>i < ?N. \<forall>u \<in> set (NNList (mesh ?S1) ! i).
      \<not> calc_edge_length X (mesh ?S1) (int i) u > L_max"
    by (simp add: no_long_edge_def list_all_iff)
  from select_edges_short_upto [OF this, of ?N] have sel: "select_edges X L_max ?N ?S1 = ?T"
    by (simp add: select_edges_def)
  from awf have len: "length (NNList (mesh ?T)) = get_number_nodes (mesh ?T)"
    by (simp add: arrays_wf_def)
  from mpi have mpi': "nprocs ?T > 1 \<longrightarrow> mpi_allreduce X 0 0 = 0"
    by simp
  have "propagate X ?N (get_number_elements (mesh ?T)) 0 ?T = Some (Inr ?T)"
    by (rule propagate_unset [OF _ len _ mpi']) (simp_all add: ewf)
  then have pro: "(if ndims (mesh S) = 3 then propagate X ?N ?E 0 ?T else Some (Inr ?T))
      = Some (Inr ?T)"
    by simp
  have ins: "insert_vertices ?N ?T = Inr ?T"
    by (rule insert_vertices_nothing) (simp_all add: awf)
  have "refine_elements X (get_number_elements (mesh ?T)) ?T = Inr ?T"
    by (rule refine_elements_nothing) (simp_all add: awf ewf)
  then have ref: "refine_elements X ?E ?T = Inr ?T"
    by simp
  have fin: "finalise X ?N ?E ?T =
      Inr (?T\<lparr>mesh := (mesh ?T)\<lparr>NNList := adjacency_NN X (mesh ?T),
                                NEList := adjacency_NE X (mesh ?T)\<rparr>\<rparr>)"
    by (rule finalise_nothing) (simp_all add: awf)
  have "refine X L_max S =
      Some (Inr (?T\<lparr>mesh := (mesh S)\<lparr>NNList := adjacency_NN X (mesh S),
                                     NEList := adjacency_NE X (mesh S)\<rparr>\<rparr>))"
    unfolding refine_def Let_def sel pro
    by (simp add: bind_f_def ins ref fin)
  then show ?thesis
    by (simp add: on_return_def)
qed

theorem refine_short_edges_unchanged_witness:
  "arrays_wf (mesh (serial_state unit_triangle))
   \<and> elements_wf (mesh (serial_state unit_triangle))
   \<and> no_long_edge unit_ext 1 (mesh (serial_state unit_triangle))
   \<and> on_return mesh (refine unit_ext 1 (serial_state unit_triangle))
       = Some (unit_triangle\<lparr>NNList := adjacency_NN unit_ext unit_triangle,
                              NEList := adjacency_NE unit_ext unit_triangle\<rparr>)
   \<and> on_return newVertices (refine unit_ext 1 (serial_state unit_triangle)) = Some []"
proof -
  have a: "arrays_wf (mesh (serial_state unit_triangle))"
    by code_simp
  have e: "elements_wf (mesh (serial_state unit_triangle))"
    by code_simp
  have s: "no_long_edge unit_ext 1 (mesh (serial_state unit_triangle))"
    by code_simp
  have p: "nprocs (serial_state unit_triangle) > 1 \<longrightarrow> mpi_allreduce unit_ext 0 0 = 0"
    by (simp add: serial_state_def)
  have m: "mesh (serial_state unit_triangle) = unit_triangle"
    by (simp add: serial_state_def)
  from refine_short_edges_unchanged [OF a e s p] a e s show ?thesis
    by (simp add: m)
qed

section \<open>The selection pass for any bound\<close>

lemma select_edge_eq:
  "select_edge X L_max i it S =
     (if long_edge X L_max S i it
      then refine_edge X (int i) (NNList (mesh S) ! i ! it) (stage_edge i it S)
      else S)"
  by (simp add: select_edge_def long_edge_def Let_def)

lemma select_edge_fields [simp]:
  "mesh (select_edge X L_max i it S) = mesh S"
  "lnn2gnn (select_edge X L_max i it S) = lnn2gnn S"
  "gnn2lnn (select_edge X L_max i it S) = gnn2lnn S"
  "node_owner (select_edge X L_max i it S) = node_owner S"
  "nprocs (select_edge X L_max i it S) = nprocs S"
  "rank (select_edge X L_max i it S) = rank S"
  by (simp_all add: select_edge_eq)

lemma select_edge_refined:
  "refined_edges (select_edge X L_max i it S) =
     (if long_edge X L_max S i it
      then (refined_edges S)[i := (refined_edges S ! i)[2 * it := int (splitCnt S), 2 * it + 1 := 0]]
      else refined_edges S)"
  by (simp add: select_edge_eq stage_edge_def)

lemma long_edge_cong:
  "mesh S' = mesh S \<Longrightarrow> lnn2gnn S' = lnn2gnn S \<Longrightarrow>
     long_edge X L_max S' i it = long_edge X L_max S i it"
  by (simp add: long_edge_def)

lemma refine_edge_append:
  assumes "mesh S = mesh S0" and "lnn2gnn S = lnn2gnn S0"
    and "newVertices S0 = []" and "newCoords S0 = []" and "newMetric S0 = []"
  shows "newVertices (refine_edge X a b S) = newVertices S @ newVertices (refine_edge X a b S0)"
    and "newCoords (refine_edge X a b S) = newCoords S @ newCoords (refine_edge X a b S0)"
    and "newMetric (refine_edge X a b S) = newMetric S @ newMetric (refine_edge X a b S0)"
    and "length (newVertices (refine_edge X a b S0)) = 1"
    and "length (newCoords (refine_edge X a b S0)) = ndims (mesh S0)"
    and "length (newMetric (refine_edge X a b S0)) = ndims (mesh S0) * ndims (mesh S0)"
proof -
  obtain a' b' where o: "order_by_gnn (gnn_at X (lnn2gnn S0)) a b = (a', b')"
    by (rule order_by_gnn_cases)
  then have o': "order_by_gnn (gnn_at X (lnn2gnn S)) a b = (a', b')"
    by (simp add: assms(2))
  show "newVertices (refine_edge X a b S) = newVertices S @ newVertices (refine_edge X a b S0)"
    and "newCoords (refine_edge X a b S) = newCoords S @ newCoords (refine_edge X a b S0)"
    and "newMetric (refine_edge X a b S) = newMetric S @ newMetric (refine_edge X a b S0)"
    and "length (newVertices (refine_edge X a b S0)) = 1"
    and "length (newCoords (refine_edge X a b S0)) = ndims (mesh S0)"
    and "length (newMetric (refine_edge X a b S0)) = ndims (mesh S0) * ndims (mesh S0)"
    by (simp_all add: refine_edge_eq [OF o] refine_edge_eq [OF o'] Let_def assms)
qed

lemma chunk_append:
  assumes "k < c" and "length A = d * c"
  shows "take d (drop (d * k) (A @ B)) = take d (drop (d * k) A)"
proof -
  from assms(1) have "d * Suc k \<le> d * c"
    by (intro mult_le_mono2) simp
  then have "d * k + d \<le> d * c"
    by simp
  with assms(2) show ?thesis
    by simp
qed

lemma chunk_last:
  assumes "length A = d * c" and "length C = d"
  shows "take d (drop (d * c) (A @ C)) = C"
  using assms by simp

lemma staged_vertex_grown:
  assumes st: "staged_vertex X S0 T i it" and inv: "staging_inv S0 T" and gr: "grown T T'"
    and s0: "refined_edges T' ! i ! (2 * it) = refined_edges T ! i ! (2 * it)"
    and s1: "refined_edges T' ! i ! (2 * it + 1) = refined_edges T ! i ! (2 * it + 1)"
  shows "staged_vertex X S0 T' i it"
proof -
  let ?d = "ndims (mesh S0)" and ?k = "nat (refined_edges T ! i ! (2 * it))"
  from gr obtain vs cs ms where v: "newVertices T' = newVertices T @ vs"
    and c: "newCoords T' = newCoords T @ cs" and m: "newMetric T' = newMetric T @ ms"
    unfolding grown_def by blast
  from inv have lv: "length (newVertices T) = splitCnt T"
    and lc: "length (newCoords T) = ?d * splitCnt T"
    and lm: "length (newMetric T) = (?d * ?d) * splitCnt T"
    by (simp_all add: staging_inv_def)
  from st have k: "?k < length (newVertices T)"
    by (simp add: staged_vertex_def Let_def)
  then have kc: "?k < splitCnt T"
    by (simp add: lv)
  have "newVertices T' ! ?k = newVertices T ! ?k"
    using k by (simp add: v nth_append)
  moreover have "take ?d (drop (?d * ?k) (newCoords T')) = take ?d (drop (?d * ?k) (newCoords T))"
    unfolding c by (rule chunk_append [OF kc lc])
  moreover have "take (?d * ?d) (drop (?d * ?d * ?k) (newMetric T'))
      = take (?d * ?d) (drop (?d * ?d * ?k) (newMetric T))"
    unfolding m by (rule chunk_append [OF kc lm])
  moreover have "?k < length (newVertices T')"
    using k by (simp add: v)
  ultimately show ?thesis
    using st s0 s1 by (simp add: staged_vertex_def Let_def)
qed

lemma grown_refl [simp]: "grown T T"
  by (simp add: grown_def)

lemma grown_trans: "grown S T \<Longrightarrow> grown T U \<Longrightarrow> grown S U"
  by (auto simp: grown_def)

lemma select_edge_long:
  assumes e: "newVertices S0 = []" "newCoords S0 = []" "newMetric S0 = []"
    and inv: "staging_inv S0 T" and long: "long_edge X L S0 i j"
    and i: "i < length (refined_edges T)" and j: "2 * j + 1 < length (refined_edges T ! i)"
  shows "refined_edges (select_edge X L i j T)
      = (refined_edges T)[i := (refined_edges T ! i)[2 * j := int (splitCnt T), 2 * j + 1 := 0]]"
    and "staging_inv S0 (select_edge X L i j T)"
    and "grown T (select_edge X L i j T)"
    and "staged_vertex X S0 (select_edge X L i j T) i j"
proof -
  let ?d = "ndims (mesh S0)"
  let ?u = "NNList (mesh S0) ! i ! j"
  let ?R = "refine_edge X (int i) ?u S0"
  let ?T1 = "stage_edge i j T"
  let ?T3 = "select_edge X L i j T"
  from inv have m: "mesh T = mesh S0" and l: "lnn2gnn T = lnn2gnn S0"
    and lv: "length (newVertices T) = splitCnt T"
    and lc: "length (newCoords T) = ?d * splitCnt T"
    and lm: "length (newMetric T) = (?d * ?d) * splitCnt T"
    by (simp_all add: staging_inv_def)
  from long have "long_edge X L T i j"
    by (simp add: long_edge_cong [OF m l])
  then have T3: "?T3 = refine_edge X (int i) ?u ?T1"
    by (simp add: select_edge_eq m)
  have m1: "mesh ?T1 = mesh S0" and l1: "lnn2gnn ?T1 = lnn2gnn S0"
    by (simp_all add: m l)
  note ap = refine_edge_append [OF m1 l1 e, of X "int i" ?u]
  have v3: "newVertices ?T3 = newVertices T @ newVertices ?R"
    and c3: "newCoords ?T3 = newCoords T @ newCoords ?R"
    and m3: "newMetric ?T3 = newMetric T @ newMetric ?R"
    unfolding T3 using ap(1-3) by simp_all
  have cnt3: "splitCnt ?T3 = Suc (splitCnt T)"
    unfolding T3 by simp
  show re3: "refined_edges ?T3
      = (refined_edges T)[i := (refined_edges T ! i)[2 * j := int (splitCnt T), 2 * j + 1 := 0]]"
    unfolding T3 by (simp add: stage_edge_def)
  show "staging_inv S0 ?T3"
    unfolding staging_inv_def v3 c3 m3 cnt3
    by (simp add: m l lv lc lm ap(4-6))
  show "grown T ?T3"
    unfolding grown_def v3 c3 m3 by blast
  from i j have s0: "refined_edges ?T3 ! i ! (2 * j) = int (splitCnt T)"
    and s1: "refined_edges ?T3 ! i ! (2 * j + 1) = 0"
    by (simp_all add: re3)
  obtain v where v: "newVertices ?R = [v]"
    using ap(4) by (cases "newVertices ?R") simp_all
  have k: "newVertices ?T3 ! splitCnt T = v"
    unfolding v3 v lv [symmetric] by simp
  have kc: "take ?d (drop (?d * splitCnt T) (newCoords ?T3)) = newCoords ?R"
    unfolding c3 by (rule chunk_last [OF lc ap(5)])
  have km: "take (?d * ?d) (drop (?d * ?d * splitCnt T) (newMetric ?T3)) = newMetric ?R"
    unfolding m3 by (rule chunk_last [OF lm ap(6)])
  have kl: "splitCnt T < length (newVertices ?T3)"
    unfolding v3 v using lv by simp
  show "staged_vertex X S0 ?T3 i j"
    unfolding staged_vertex_def Let_def s0 s1
    using k kc km kl by (simp add: v)
qed

lemma select_edge_short_bound:
  assumes "staging_inv S0 T" and "\<not> long_edge X L S0 i j"
  shows "select_edge X L i j T = T"
proof -
  from assms(1) have "mesh T = mesh S0" and "lnn2gnn T = lnn2gnn S0"
    by (simp_all add: staging_inv_def)
  from long_edge_cong [OF this] assms(2) show ?thesis
    by (simp add: select_edge_eq)
qed

lemma fold_select_edge_staged:
  assumes e: "newVertices S0 = []" "newCoords S0 = []" "newMetric S0 = []"
    and inv: "staging_inv S0 S" and i: "i < length (refined_edges S)"
    and js: "\<forall>j \<in> set js. 2 * j + 1 < length (refined_edges S ! i)"
  shows "staging_inv S0 (fold (select_edge X L i) js S)
    \<and> grown S (fold (select_edge X L i) js S)
    \<and> length (refined_edges (fold (select_edge X L i) js S)) = length (refined_edges S)
    \<and> (\<forall>k. k \<noteq> i \<longrightarrow> refined_edges (fold (select_edge X L i) js S) ! k = refined_edges S ! k)
    \<and> length (refined_edges (fold (select_edge X L i) js S) ! i) = length (refined_edges S ! i)
    \<and> (\<forall>it. if it \<in> set js \<and> long_edge X L S0 i it
             then staged_vertex X S0 (fold (select_edge X L i) js S) i it
             else refined_edges (fold (select_edge X L i) js S) ! i ! (2 * it)
                    = refined_edges S ! i ! (2 * it)
                  \<and> refined_edges (fold (select_edge X L i) js S) ! i ! (2 * it + 1)
                    = refined_edges S ! i ! (2 * it + 1))"
  using js
proof (induction js rule: rev_induct)
  case Nil
  from inv show ?case by simp
next
  case (snoc j js)
  let ?S2 = "fold (select_edge X L i) js S"
  let ?S3 = "select_edge X L i j ?S2"
  have f: "fold (select_edge X L i) (js @ [j]) S = ?S3"
    by simp
  from snoc.prems have pj: "2 * j + 1 < length (refined_edges S ! i)"
    and pjs: "\<forall>j \<in> set js. 2 * j + 1 < length (refined_edges S ! i)"
    by simp_all
  note ih = snoc.IH [OF pjs]
  from ih have inv2: "staging_inv S0 ?S2" and gr2: "grown S ?S2"
    and len: "length (refined_edges ?S2) = length (refined_edges S)"
    and oth: "\<And>k. k \<noteq> i \<Longrightarrow> refined_edges ?S2 ! k = refined_edges S ! k"
    and rl: "length (refined_edges ?S2 ! i) = length (refined_edges S ! i)"
    and sl: "\<And>it. if it \<in> set js \<and> long_edge X L S0 i it
             then staged_vertex X S0 ?S2 i it
             else refined_edges ?S2 ! i ! (2 * it) = refined_edges S ! i ! (2 * it)
                  \<and> refined_edges ?S2 ! i ! (2 * it + 1) = refined_edges S ! i ! (2 * it + 1)"
    by blast+
  show ?case
  proof (cases "long_edge X L S0 i j")
    case False
    from select_edge_short_bound [OF inv2 False] have eq: "?S3 = ?S2" .
    from False have c: "(it \<in> set (js @ [j]) \<and> long_edge X L S0 i it)
        = (it \<in> set js \<and> long_edge X L S0 i it)" for it
      by auto
    show ?thesis
      unfolding f eq c by (rule ih)
  next
    case True
    from i len have i2: "i < length (refined_edges ?S2)"
      by simp
    from pj rl have j2: "2 * j + 1 < length (refined_edges ?S2 ! i)"
      by simp
    note st = select_edge_long [OF e inv2 True i2 j2]
    let ?row = "(refined_edges ?S2 ! i)[2 * j := int (splitCnt ?S2), 2 * j + 1 := 0]"
    from st(1) have re3: "refined_edges ?S3 = (refined_edges ?S2)[i := ?row]" .
    from i2 have row3: "refined_edges ?S3 ! i = ?row"
      by (simp add: re3)
    have same: "refined_edges ?S3 ! i ! (2 * it) = refined_edges ?S2 ! i ! (2 * it)
        \<and> refined_edges ?S3 ! i ! (2 * it + 1) = refined_edges ?S2 ! i ! (2 * it + 1)"
      if "it \<noteq> j" for it
    proof -
      from that have "2 * it \<noteq> 2 * j" "2 * it \<noteq> 2 * j + 1" "2 * it + 1 \<noteq> 2 * j"
        "2 * it + 1 \<noteq> 2 * j + 1"
        by presburger+
      then show ?thesis
        unfolding row3 by (simp add: nth_list_update)
    qed
    have slot3: "if it \<in> set (js @ [j]) \<and> long_edge X L S0 i it
             then staged_vertex X S0 ?S3 i it
             else refined_edges ?S3 ! i ! (2 * it) = refined_edges S ! i ! (2 * it)
                  \<and> refined_edges ?S3 ! i ! (2 * it + 1) = refined_edges S ! i ! (2 * it + 1)"
      for it
    proof (cases "it = j")
      case True
      with st(4) \<open>long_edge X L S0 i j\<close> show ?thesis
        by simp
    next
      case False
      note sm = same [OF False]
      show ?thesis
      proof (cases "it \<in> set js \<and> long_edge X L S0 i it")
        case True
        with sl [of it] have "staged_vertex X S0 ?S2 i it"
          by simp
        from staged_vertex_grown [OF this inv2 st(3)] sm have "staged_vertex X S0 ?S3 i it"
          by blast
        with True show ?thesis
          by simp
      next
        case False
        with sl [of it] sm \<open>it \<noteq> j\<close> show ?thesis
          by auto
      qed
    qed
    have len3: "length (refined_edges ?S3) = length (refined_edges S)"
      using len by (simp add: re3)
    have oth3: "refined_edges ?S3 ! k = refined_edges S ! k" if "k \<noteq> i" for k
      using that oth [OF that] by (simp add: re3)
    have rl3: "length (refined_edges ?S3 ! i) = length (refined_edges S ! i)"
      using rl by (simp add: row3)
    have gr3: "grown S ?S3"
      using gr2 st(3) by (rule grown_trans)
    show ?thesis
      unfolding f
    proof (intro conjI allI impI)
      show "staging_inv S0 ?S3"
        by (rule st(2))
      show "grown S ?S3"
        by (rule gr3)
      show "length (refined_edges ?S3) = length (refined_edges S)"
        by (rule len3)
      show "length (refined_edges ?S3 ! i) = length (refined_edges S ! i)"
        by (rule rl3)
    next
      fix k
      assume "k \<noteq> i"
      then show "refined_edges ?S3 ! k = refined_edges S ! k"
        by (rule oth3)
    next
      fix it
      show "if it \<in> set (js @ [j]) \<and> long_edge X L S0 i it
             then staged_vertex X S0 ?S3 i it
             else refined_edges ?S3 ! i ! (2 * it) = refined_edges S ! i ! (2 * it)
                  \<and> refined_edges ?S3 ! i ! (2 * it + 1) = refined_edges S ! i ! (2 * it + 1)"
        by (rule slot3)
    qed
  qed
qed

lemma select_vertex_staged:
  assumes e: "newVertices S0 = []" "newCoords S0 = []" "newMetric S0 = []"
    and inv: "staging_inv S0 S" and i: "i < length (refined_edges S)"
    and empty: "refined_edges S ! i = []"
  shows "staging_inv S0 (select_vertex X L i S)
    \<and> grown S (select_vertex X L i S)
    \<and> length (refined_edges (select_vertex X L i S)) = length (refined_edges S)
    \<and> (\<forall>k. k \<noteq> i \<longrightarrow> refined_edges (select_vertex X L i S) ! k = refined_edges S ! k)
    \<and> (\<forall>it < length (NNList (mesh S0) ! i).
          if long_edge X L S0 i it
          then staged_vertex X S0 (select_vertex X L i S) i it
          else refined_edges (select_vertex X L i S) ! i ! (2 * it) = - 1
             \<and> refined_edges (select_vertex X L i S) ! i ! (2 * it + 1) = - 1)"
proof -
  from inv have m: "mesh S = mesh S0"
    by (simp add: staging_inv_def)
  let ?n = "length (NNList (mesh S0) ! i)"
  let ?Sa = "S\<lparr>refined_edges := (refined_edges S)[i := replicate (2 * ?n) (- 1)]\<rparr>"
  let ?T = "select_vertex X L i S"
  have sv: "?T = fold (select_edge X L i) [0..<?n] ?Sa"
    by (simp add: select_vertex_def empty resize_v_def m)
  from inv have inva: "staging_inv S0 ?Sa"
    by (simp add: staging_inv_def)
  from i have ia: "i < length (refined_edges ?Sa)"
    by simp
  from i have rowa: "refined_edges ?Sa ! i = replicate (2 * ?n) (- 1)"
    by simp
  have ja: "\<forall>j \<in> set [0..<?n]. 2 * j + 1 < length (refined_edges ?Sa ! i)"
    unfolding rowa by simp
  have gra: "grown S ?Sa"
    by (simp add: grown_def)
  note r = fold_select_edge_staged [OF e inva ia ja, of X L, folded sv]
  show ?thesis
  proof (intro conjI allI impI)
    from r show "staging_inv S0 ?T"
      by blast
    from r have "grown ?Sa ?T"
      by blast
    with gra show "grown S ?T"
      by (rule grown_trans)
    from r have "length (refined_edges ?T) = length (refined_edges ?Sa)"
      by blast
    then show "length (refined_edges ?T) = length (refined_edges S)"
      by simp
  next
    fix k
    assume k: "k \<noteq> i"
    with r have "refined_edges ?T ! k = refined_edges ?Sa ! k"
      by blast
    with k show "refined_edges ?T ! k = refined_edges S ! k"
      by simp
  next
    fix it
    assume it: "it < ?n"
    from r have "if it \<in> set [0..<?n] \<and> long_edge X L S0 i it
        then staged_vertex X S0 ?T i it
        else refined_edges ?T ! i ! (2 * it) = refined_edges ?Sa ! i ! (2 * it)
           \<and> refined_edges ?T ! i ! (2 * it + 1) = refined_edges ?Sa ! i ! (2 * it + 1)"
      by blast
    moreover from it have "replicate (2 * ?n) (- 1 :: int) ! (2 * it) = - 1"
      and "replicate (2 * ?n) (- 1 :: int) ! (2 * it + 1) = - 1"
      by simp_all
    ultimately show "if long_edge X L S0 i it
          then staged_vertex X S0 ?T i it
          else refined_edges ?T ! i ! (2 * it) = - 1 \<and> refined_edges ?T ! i ! (2 * it + 1) = - 1"
      unfolding rowa using it by (simp split: if_splits)
  qed
qed

lemma select_edges_staged:
  assumes e: "newVertices S0 = []" "newCoords S0 = []" "newMetric S0 = []"
    and inv: "staging_inv S0 S" and re: "refined_edges S = replicate N []" and n: "n \<le> N"
  shows "staging_inv S0 (fold (select_vertex X L) [0..<n] S)
    \<and> length (refined_edges (fold (select_vertex X L) [0..<n] S)) = N
    \<and> (\<forall>k. n \<le> k \<and> k < N \<longrightarrow> refined_edges (fold (select_vertex X L) [0..<n] S) ! k = [])
    \<and> (\<forall>i < n. \<forall>it < length (NNList (mesh S0) ! i).
          if long_edge X L S0 i it
          then staged_vertex X S0 (fold (select_vertex X L) [0..<n] S) i it
          else refined_edges (fold (select_vertex X L) [0..<n] S) ! i ! (2 * it) = - 1
             \<and> refined_edges (fold (select_vertex X L) [0..<n] S) ! i ! (2 * it + 1) = - 1)"
  using n
proof (induction n)
  case 0
  with re inv show ?case by simp
next
  case (Suc n)
  let ?S2 = "fold (select_vertex X L) [0..<n] S"
  let ?S3 = "select_vertex X L n ?S2"
  have f: "fold (select_vertex X L) [0..<Suc n] S = ?S3"
    by simp
  from Suc.prems have lt: "n < N" and le: "n \<le> N"
    by simp_all
  from Suc.IH [OF le] have inv2: "staging_inv S0 ?S2"
    and len: "length (refined_edges ?S2) = N"
    and emp: "\<And>k. n \<le> k \<Longrightarrow> k < N \<Longrightarrow> refined_edges ?S2 ! k = []"
    and rows: "\<And>i it. i < n \<Longrightarrow> it < length (NNList (mesh S0) ! i) \<Longrightarrow>
          (if long_edge X L S0 i it
           then staged_vertex X S0 ?S2 i it
           else refined_edges ?S2 ! i ! (2 * it) = - 1
              \<and> refined_edges ?S2 ! i ! (2 * it + 1) = - 1)"
    by blast+
  from lt len have i2: "n < length (refined_edges ?S2)"
    by simp
  from emp lt have e2: "refined_edges ?S2 ! n = []"
    by simp
  note r = select_vertex_staged [OF e inv2 i2 e2, of X L]
  from r have inv3: "staging_inv S0 ?S3" and gr3: "grown ?S2 ?S3"
    and len3: "length (refined_edges ?S3) = length (refined_edges ?S2)"
    and oth3: "\<And>k. k \<noteq> n \<Longrightarrow> refined_edges ?S3 ! k = refined_edges ?S2 ! k"
    and new3: "\<And>it. it < length (NNList (mesh S0) ! n) \<Longrightarrow>
          (if long_edge X L S0 n it
           then staged_vertex X S0 ?S3 n it
           else refined_edges ?S3 ! n ! (2 * it) = - 1
              \<and> refined_edges ?S3 ! n ! (2 * it + 1) = - 1)"
    by blast+
  show ?case
    unfolding f
  proof (intro conjI allI impI)
    show "staging_inv S0 ?S3"
      by (rule inv3)
    from len3 len show "length (refined_edges ?S3) = N"
      by simp
  next
    fix k
    assume k: "Suc n \<le> k \<and> k < N"
    then have "k \<noteq> n"
      by simp
    from oth3 [OF this] k emp [of k] show "refined_edges ?S3 ! k = []"
      by simp
  next
    fix i it
    assume i: "i < Suc n" and it: "it < length (NNList (mesh S0) ! i)"
    show "if long_edge X L S0 i it
          then staged_vertex X S0 ?S3 i it
          else refined_edges ?S3 ! i ! (2 * it) = - 1 \<and> refined_edges ?S3 ! i ! (2 * it + 1) = - 1"
    proof (cases "i = n")
      case True
      from it have "it < length (NNList (mesh S0) ! n)"
        unfolding True .
      from new3 [OF this] show ?thesis
        unfolding True .
    next
      case False
      with i have "i < n"
        by simp
      note old = rows [OF this it]
      from oth3 [OF False] have same: "refined_edges ?S3 ! i = refined_edges ?S2 ! i" .
      show ?thesis
      proof (cases "long_edge X L S0 i it")
        case True
        with old have "staged_vertex X S0 ?S2 i it"
          by simp
        from staged_vertex_grown [OF this inv2 gr3] same have "staged_vertex X S0 ?S3 i it"
          by simp
        with True show ?thesis
          by simp
      next
        case False
        with old same show ?thesis
          by simp
      qed
    qed
  qed
qed

lemma fold_cong_inv:
  assumes "P s" and "\<And>x s. x \<in> set xs \<Longrightarrow> P s \<Longrightarrow> f x s = g x s \<and> P (g x s)"
  shows "fold f xs s = fold g xs s"
  using assms
proof (induction xs arbitrary: s)
  case Nil
  show ?case by simp
next
  case (Cons x xs)
  from Cons.prems(2) [of x s] Cons.prems(1) have eq: "f x s = g x s" and p: "P (g x s)"
    by simp_all
  have step: "f y t = g y t \<and> P (g y t)" if "y \<in> set xs" "P t" for y t
    using Cons.prems(2) [of y t] that by simp
  from Cons.IH [OF p step] show ?case
    by (simp add: eq)
qed

lemma same_long_edges_D:
  assumes "same_long_edges X L L' m" and "i < get_number_nodes m" and "it < length (NNList m ! i)"
  shows "(L < calc_edge_length X m (int i) (NNList m ! i ! it))
       = (L' < calc_edge_length X m (int i) (NNList m ! i ! it))"
  using assms by (simp add: same_long_edges_def list_all_length)

lemma select_edge_same:
  assumes "(L < calc_edge_length X (mesh T) (int i) (NNList (mesh T) ! i ! it))
         = (L' < calc_edge_length X (mesh T) (int i) (NNList (mesh T) ! i ! it))"
  shows "select_edge X L i it T = select_edge X L' i it T"
  using assms by (simp add: select_edge_def Let_def)

lemma select_vertex_mesh [simp]:
  fixes S :: "'r::{one,plus,minus,times,inverse,ord} refine_state"
  shows "mesh (select_vertex X L i S) = mesh S"
  unfolding select_vertex_def
  by (rule fold_preserves [where P = "\<lambda>T :: 'r refine_state. mesh T = mesh S"]) simp_all

lemma select_vertex_same:
  fixes T :: "'r::{one,plus,minus,times,inverse,ord} refine_state"
  assumes s: "same_long_edges X L L' (mesh T)" and i: "i < get_number_nodes (mesh T)"
  shows "select_vertex X L i T = select_vertex X L' i T"
  unfolding select_vertex_def
proof (rule fold_cong_inv [where P = "\<lambda>s :: 'r refine_state. mesh s = mesh T"])
  show "mesh (T\<lparr>refined_edges := (refined_edges T)
      [i := resize_v (2 * length (NNList (mesh T) ! i)) (- 1) (refined_edges T ! i)]\<rparr>) = mesh T"
    by simp
next
  fix x and s :: "'r refine_state"
  assume x: "x \<in> set [0..<length (NNList (mesh T) ! i)]" and m: "mesh s = mesh T"
  from x have "x < length (NNList (mesh T) ! i)"
    by simp
  from same_long_edges_D [OF s i this]
  have "select_edge X L i x s = select_edge X L' i x s"
    by (intro select_edge_same) (simp add: m)
  with m show "select_edge X L i x s = select_edge X L' i x s
      \<and> mesh (select_edge X L' i x s) = mesh T"
    by simp
qed

lemma select_edges_same:
  fixes S :: "'r::{one,plus,minus,times,inverse,ord} refine_state"
  assumes s: "same_long_edges X L L' (mesh S)" and n: "N \<le> get_number_nodes (mesh S)"
  shows "select_edges X L N S = select_edges X L' N S"
  unfolding select_edges_def
proof (rule fold_cong_inv [where P = "\<lambda>T :: 'r refine_state. mesh T = mesh S"])
  show "mesh S = mesh S"
    by simp
next
  fix x and T :: "'r refine_state"
  assume x: "x \<in> set [0..<N]" and m: "mesh T = mesh S"
  with n have "x < get_number_nodes (mesh T)"
    by simp
  moreover from s m have "same_long_edges X L L' (mesh T)"
    by simp
  ultimately have "select_vertex X L x T = select_vertex X L' x T"
    by (intro select_vertex_same)
  with m show "select_vertex X L x T = select_vertex X L' x T
      \<and> mesh (select_vertex X L' x T) = mesh S"
    by simp
qed

text \<open>
  C4 (as the code has it).  refine does not validate \<open>L_max\<close>: the bound enters the call
  only through the test \<open>length > L_max\<close> of the selection pass, whatever its sign.  For
  every vertex \<open>i\<close> and every position \<open>it\<close> in its neighbour list, the pass stages a new
  vertex exactly when the global number of \<open>i\<close> is the lesser one and the length of the edge
  exceeds the bound: the slot then holds the index of the directed edge, the coordinates and
  the metric that refine_edge appended for the two end points; otherwise the two slots of
  the neighbour stay \<open>-1\<close>.  And two bounds that are exceeded by the same edges give the
  same outcome of the whole call, be it a state or a fault.
\<close>

theorem refine_bound_not_validated:
  assumes i: "i < get_number_nodes (mesh S)" and it: "it < length (NNList (mesh S) ! i)"
    and same: "same_long_edges X L_max L' (mesh S)"
  shows "(if long_edge X L_max (start X (get_number_nodes (mesh S)) S) i it
          then staged_vertex X (start X (get_number_nodes (mesh S)) S)
                 (select_edges X L_max (get_number_nodes (mesh S))
                    (start X (get_number_nodes (mesh S)) S)) i it
          else refined_edges (select_edges X L_max (get_number_nodes (mesh S))
                    (start X (get_number_nodes (mesh S)) S)) ! i ! (2 * it) = - 1
             \<and> refined_edges (select_edges X L_max (get_number_nodes (mesh S))
                    (start X (get_number_nodes (mesh S)) S)) ! i ! (2 * it + 1) = - 1)
       \<and> refine X L_max S = refine X L' S"
proof -
  let ?N = "get_number_nodes (mesh S)"
  let ?S0 = "start X ?N S"
  have e: "newVertices ?S0 = []" "newCoords ?S0 = []" "newMetric ?S0 = []"
    by simp_all
  have inv: "staging_inv ?S0 ?S0"
    by (simp add: staging_inv_def)
  have re: "refined_edges ?S0 = replicate ?N []"
    by simp
  from it have it0: "it < length (NNList (mesh ?S0) ! i)"
    by simp
  from select_edges_staged [OF e inv re order_refl, of X L_max] i it0
  have a: "if long_edge X L_max ?S0 i it
      then staged_vertex X ?S0 (select_edges X L_max ?N ?S0) i it
      else refined_edges (select_edges X L_max ?N ?S0) ! i ! (2 * it) = - 1
         \<and> refined_edges (select_edges X L_max ?N ?S0) ! i ! (2 * it + 1) = - 1"
    unfolding select_edges_def by blast
  from same have "same_long_edges X L_max L' (mesh ?S0)"
    by simp
  then have "select_edges X L_max ?N ?S0 = select_edges X L' ?N ?S0"
    by (rule select_edges_same) simp
  then have b: "refine X L_max S = refine X L' S"
    unfolding refine_def Let_def by simp
  from a b show ?thesis
    by (rule conjI)
qed

theorem refine_bound_not_validated_witness:
  "(0 :: nat) < get_number_nodes (mesh (serial_state unit_triangle))
   \<and> (0 :: nat) < length (NNList (mesh (serial_state unit_triangle)) ! 0)
   \<and> same_long_edges unit_ext 0 (1 / 2) (mesh (serial_state unit_triangle))
   \<and> long_edge unit_ext 0 (start unit_ext 3 (serial_state unit_triangle)) 0 0
   \<and> staged_vertex unit_ext (start unit_ext 3 (serial_state unit_triangle))
        (select_edges unit_ext 0 3 (start unit_ext 3 (serial_state unit_triangle))) 0 0
   \<and> \<not> long_edge unit_ext 0 (start unit_ext 3 (serial_state unit_triangle)) 1 0
   \<and> refined_edges (select_edges unit_ext 0 3 (start unit_ext 3 (serial_state unit_triangle)))
        ! 1 ! (2 * 0) = - 1
   \<and> refine unit_ext 0 (serial_state unit_triangle)
       = refine unit_ext (1 / 2) (serial_state unit_triangle)"
proof -
  let ?S = "serial_state unit_triangle"
  have N: "get_number_nodes (mesh ?S) = 3"
    by code_simp
  have i: "(0 :: nat) < get_number_nodes (mesh ?S)" "(1 :: nat) < get_number_nodes (mesh ?S)"
    by (simp_all add: N)
  have n: "(0 :: nat) < length (NNList (mesh ?S) ! 0)" "(0 :: nat) < length (NNList (mesh ?S) ! 1)"
    by code_simp+
  have s: "same_long_edges unit_ext 0 (1 / 2) (mesh ?S)"
    by code_simp
  have l: "long_edge unit_ext 0 (start unit_ext 3 ?S) 0 0"
    "\<not> long_edge unit_ext 0 (start unit_ext 3 ?S) 1 0"
    by code_simp+
  from refine_bound_not_validated [OF i(1) n(1) s] refine_bound_not_validated [OF i(2) n(2) s]
    i n s l
  show ?thesis
    by (simp add: N)
qed

text \<open>
  C4 as stated fails.  Called on the unit triangle with the bound 0, refine returns without
  a fault and has mutated the mesh: three vertices and four triangles were appended and the
  parent was erased.
\<close>

theorem refine_zero_bound_counterexample:
  "fault_of (refine unit_ext 0 (serial_state unit_triangle)) = None
   \<and> on_return (coords \<circ> mesh) (refine unit_ext 0 (serial_state unit_triangle))
       = Some [0, 0, 1, 0, 0, 1, 1 / 2, 0, 0, 1 / 2, 1 / 2, 1 / 2]
   \<and> on_return (ENList \<circ> mesh) (refine unit_ext 0 (serial_state unit_triangle))
       = Some [- 1, 1, 2, 0, 3, 4, 1, 5, 3, 2, 4, 5, 5, 4, 3]"
  by code_simp

section \<open>The owners of the new vertices\<close>

lemma staged_refine_edge_inv:
  assumes inv: "new_vertices_inv N S0 S" and len: "length (lnn2gnn S0) = N"
    and n0: "0 \<le> n0" "nat n0 < N" and n1: "0 \<le> n1" "nat n1 < N"
  shows "new_vertices_inv N S0 (refine_edge X n0 n1 (stage_edge i it S))"
proof -
  let ?S = "stage_edge i it S"
  obtain a b where o: "order_by_gnn (gnn_at X (lnn2gnn ?S)) n0 n1 = (a, b)"
    by (rule order_by_gnn_cases)
  then have ab: "(a = n0 \<and> b = n1) \<or> (a = n1 \<and> b = n0)"
    by (auto simp: order_by_gnn_def split: if_splits)
  with n0 n1 have r: "0 \<le> a" "nat a < N" "0 \<le> b" "nat b < N"
    by auto
  from inv have l: "lnn2gnn S = lnn2gnn S0"
    by (simp add: new_vertices_inv_def)
  have g: "gnn_at X (lnn2gnn S) a = lnn2gnn S0 ! nat a"
    "gnn_at X (lnn2gnn S) b = lnn2gnn S0 ! nat b"
    by (simp_all add: gnn_at_def l len r)
  have nv: "newVertices (refine_edge X n0 n1 ?S)
      = newVertices S @ [\<lparr>edge = (lnn2gnn S0 ! nat a, lnn2gnn S0 ! nat b), id_e = None\<rparr>]"
    by (simp add: refine_edge_eq [OF o] Let_def g)
  from r have "\<exists>a' b'. a' < N \<and> b' < N
      \<and> edge \<lparr>edge = (lnn2gnn S0 ! nat a, lnn2gnn S0 ! nat b), id_e = None\<rparr>
          = (lnn2gnn S0 ! a', lnn2gnn S0 ! b')
      \<and> id_e \<lparr>edge = (lnn2gnn S0 ! nat a, lnn2gnn S0 ! nat b), id_e = None\<rparr> = None"
    by (intro exI [of _ "nat a"] exI [of _ "nat b"]) simp
  with inv show ?thesis
    unfolding new_vertices_inv_def nv by simp
qed

lemma neighbours_wf_D:
  assumes "neighbours_wf m" and "i < get_number_nodes m" and "it < length (NNList m ! i)"
  shows "0 \<le> NNList m ! i ! it" and "nat (NNList m ! i ! it) < get_number_nodes m"
proof -
  from assms(1,2) have "\<forall>u \<in> set (NNList m ! i). 0 \<le> u \<and> nat u < get_number_nodes m"
    by (simp add: neighbours_wf_def list_all_iff)
  moreover from assms(3) have "NNList m ! i ! it \<in> set (NNList m ! i)"
    by simp
  ultimately show "0 \<le> NNList m ! i ! it" and "nat (NNList m ! i ! it) < get_number_nodes m"
    by blast+
qed

lemma select_edge_inv:
  assumes inv: "new_vertices_inv N S0 S" and len: "length (lnn2gnn S0) = N"
    and wf: "neighbours_wf (mesh S0)" and N: "N = get_number_nodes (mesh S0)"
    and i: "i < N" and it: "it < length (NNList (mesh S0) ! i)"
  shows "new_vertices_inv N S0 (select_edge X L i it S)"
proof (cases "long_edge X L S i it")
  case False
  with inv show ?thesis
    by (simp add: select_edge_eq)
next
  case True
  from inv have m: "mesh S = mesh S0"
    by (simp add: new_vertices_inv_def)
  from neighbours_wf_D [OF wf i [unfolded N] it] N
  have "0 \<le> NNList (mesh S) ! i ! it" "nat (NNList (mesh S) ! i ! it) < N"
    by (simp_all add: m)
  with staged_refine_edge_inv [OF inv len, of "int i" "NNList (mesh S) ! i ! it" X i it] i True
  show ?thesis
    by (simp add: select_edge_eq)
qed

lemma inv_refined_edges:
  "new_vertices_inv N S0 S \<Longrightarrow> new_vertices_inv N S0 (S\<lparr>refined_edges := re\<rparr>)"
  by (simp add: new_vertices_inv_def)

lemma select_vertex_inv:
  assumes inv: "new_vertices_inv N S0 S" and len: "length (lnn2gnn S0) = N"
    and wf: "neighbours_wf (mesh S0)" and N: "N = get_number_nodes (mesh S0)"
    and i: "i < N"
  shows "new_vertices_inv N S0 (select_vertex X L i S)"
proof -
  from inv have m: "mesh S = mesh S0"
    by (simp add: new_vertices_inv_def)
  show ?thesis
    unfolding select_vertex_def m
    by (rule fold_preserves) (simp_all add: select_edge_inv [OF _ len wf N i] inv_refined_edges [OF inv])
qed

lemma select_edges_inv:
  assumes inv: "new_vertices_inv N S0 S" and len: "length (lnn2gnn S0) = N"
    and wf: "neighbours_wf (mesh S0)" and N: "N = get_number_nodes (mesh S0)"
  shows "new_vertices_inv N S0 (select_edges X L N S)"
  unfolding select_edges_def
  by (rule fold_preserves) (simp_all add: select_vertex_inv [OF _ len wf N] inv)

lemma realise_edge_inv:
  assumes inv: "new_vertices_inv N S0 S" and len: "length (lnn2gnn S0) = N"
    and wf: "neighbours_wf (mesh S0)" and N: "N = get_number_nodes (mesh S0)"
    and i: "i < N" and it: "it < length (NNList (mesh S0) ! i)"
  shows "new_vertices_inv N S0 (realise_edge X i it S)"
proof (cases "refined_edges S ! i ! (2 * it) = index_max")
  case False
  with inv show ?thesis
    by (simp add: realise_edge_def)
next
  case True
  from inv have m: "mesh S = mesh S0"
    by (simp add: new_vertices_inv_def)
  from neighbours_wf_D [OF wf i [unfolded N] it] N
  have "0 \<le> NNList (mesh S) ! i ! it" "nat (NNList (mesh S) ! i ! it) < N"
    by (simp_all add: m)
  with staged_refine_edge_inv [OF inv len, of "int i" "NNList (mesh S) ! i ! it" X i it] i True
  show ?thesis
    by (simp add: realise_edge_def)
qed

lemma realise_vertex_inv:
  assumes inv: "new_vertices_inv N S0 S" and len: "length (lnn2gnn S0) = N"
    and wf: "neighbours_wf (mesh S0)" and N: "N = get_number_nodes (mesh S0)"
    and i: "i < N"
  shows "new_vertices_inv N S0 (realise_vertex X i S)"
proof -
  from inv have m: "mesh S = mesh S0"
    by (simp add: new_vertices_inv_def)
  show ?thesis
    unfolding realise_vertex_def m
    by (rule fold_preserves) (simp_all add: realise_edge_inv [OF _ len wf N i] inv)
qed

lemma realise_edges_inv:
  assumes inv: "new_vertices_inv N S0 S" and len: "length (lnn2gnn S0) = N"
    and wf: "neighbours_wf (mesh S0)" and N: "N = get_number_nodes (mesh S0)"
  shows "new_vertices_inv N S0 (realise_edges X N S)"
  unfolding realise_edges_def
  by (rule fold_preserves) (simp_all add: realise_vertex_inv [OF _ len wf N] inv)

lemma propagate_inv_aux:
  assumes p: "propagate X N E k S = Some y"
  shows "\<forall>S'. new_vertices_inv N S0 S \<longrightarrow> length (lnn2gnn S0) = N \<longrightarrow> neighbours_wf (mesh S0)
    \<longrightarrow> N = get_number_nodes (mesh S0) \<longrightarrow> y = Inr S' \<longrightarrow> new_vertices_inv N S0 S'"
proof (rule propagate.raw_induct [where P = "\<lambda>X N E k S y.
    \<forall>S'. new_vertices_inv N S0 S \<longrightarrow> length (lnn2gnn S0) = N \<longrightarrow> neighbours_wf (mesh S0)
    \<longrightarrow> N = get_number_nodes (mesh S0) \<longrightarrow> y = Inr S' \<longrightarrow> new_vertices_inv N S0 S'", OF _ p])
  fix f :: "'a ext \<Rightarrow> nat \<Rightarrow> nat \<Rightarrow> nat \<Rightarrow> 'a refine_state \<Rightarrow> (fault + 'a refine_state) option"
  fix X N E k S y
  assume IH: "\<And>X N E k S y. f X N E k S = Some y \<Longrightarrow>
      \<forall>S'. new_vertices_inv N S0 S \<longrightarrow> length (lnn2gnn S0) = N \<longrightarrow> neighbours_wf (mesh S0)
      \<longrightarrow> N = get_number_nodes (mesh S0) \<longrightarrow> y = Inr S' \<longrightarrow> new_vertices_inv N S0 S'"
    and body: "(case propagate_sweep X E S of
        Inl e \<Rightarrow> Some (Inl e)
      | Inr (re, new_edges_size) \<Rightarrow>
          if (if nprocs S > 1 then mpi_allreduce X k new_edges_size else new_edges_size) = 0
          then Some (Inr (S\<lparr>refined_edges := re\<rparr>))
          else f X N E (k + 1) (realise_edges X N (S\<lparr>refined_edges := re\<rparr>))) = Some y"
  show "\<forall>S'. new_vertices_inv N S0 S \<longrightarrow> length (lnn2gnn S0) = N \<longrightarrow> neighbours_wf (mesh S0)
    \<longrightarrow> N = get_number_nodes (mesh S0) \<longrightarrow> y = Inr S' \<longrightarrow> new_vertices_inv N S0 S'"
  proof (intro allI impI)
    fix S'
    assume inv: "new_vertices_inv N S0 S" and len: "length (lnn2gnn S0) = N"
      and wf: "neighbours_wf (mesh S0)" and N: "N = get_number_nodes (mesh S0)"
      and y: "y = Inr S'"
    show "new_vertices_inv N S0 S'"
    proof (cases "propagate_sweep X E S")
      case (Inl e)
      with body y show ?thesis
        by simp
    next
      case (Inr p)
      obtain re c where p: "p = (re, c)"
        by (cases p)
      let ?S1 = "S\<lparr>refined_edges := re\<rparr>"
      from inv have i1: "new_vertices_inv N S0 ?S1"
        by (rule inv_refined_edges)
      show ?thesis
      proof (cases "(if nprocs S > 1 then mpi_allreduce X k c else c) = 0")
        case True
        with body Inr p have "y = Inr ?S1"
          by simp
        with y i1 show ?thesis
          by simp
      next
        case False
        with body Inr p
        have r: "f X N E (k + 1) (realise_edges X N ?S1) = Some y"
          by simp
        from realise_edges_inv [OF i1 len wf N]
        have "new_vertices_inv N S0 (realise_edges X N ?S1)" .
        with IH [OF r] len wf N y show ?thesis
          by blast
      qed
    qed
  qed
qed

lemma propagate_inv:
  assumes "propagate X N E k S = Some (Inr S')" and "new_vertices_inv N S0 S"
    and "length (lnn2gnn S0) = N" and "neighbours_wf (mesh S0)"
    and "N = get_number_nodes (mesh S0)"
  shows "new_vertices_inv N S0 S'"
  using propagate_inv_aux [OF assms(1), of S0] assms(2-5) by blast

lemma assign_ids_upto:
  assumes "n \<le> length nv"
  shows "length (fold (\<lambda>i nv. nv[i := (nv ! i)\<lparr>id_e := Some (int (t + i))\<rparr>]) [0..<n] nv) = length nv
    \<and> (\<forall>k < length nv.
          fold (\<lambda>i nv. nv[i := (nv ! i)\<lparr>id_e := Some (int (t + i))\<rparr>]) [0..<n] nv ! k
            = (if k < n then (nv ! k)\<lparr>id_e := Some (int (t + k))\<rparr> else nv ! k))"
  using assms
proof (induction n)
  case 0
  show ?case by simp
next
  case (Suc n)
  then show ?case
    by (simp add: nth_list_update less_Suc_eq)
qed

lemma assign_ids_nth:
  assumes "length nv = cnt"
  shows "length (assign_ids t cnt nv) = cnt"
    and "k < cnt \<Longrightarrow> assign_ids t cnt nv ! k = (nv ! k)\<lparr>id_e := Some (int (t + k))\<rparr>"
  using assign_ids_upto [of cnt nv t] assms by (simp_all add: assign_ids_def)

lemma insert_vertices_fields:
  assumes "insert_vertices N S = Inr S'"
  shows "lnn2gnn S' = lnn2gnn S" and "gnn2lnn S' = gnn2lnn S" and "nprocs S' = nprocs S"
    and "rank S' = rank S" and "splitCnt S' = splitCnt S"
    and "node_owner S' = resize_v (N + splitCnt S) (- 1) (node_owner S)"
    and "newVertices S' = assign_ids N (splitCnt S) (newVertices S)"
    and "length (newVertices S) = splitCnt S"
proof -
  let ?d = "ndims (mesh S)"
  let ?c1 = "resize_v (?d * (N + splitCnt S)) 0 (coords (mesh S))"
  let ?m1 = "resize_v (?d * ?d * (N + splitCnt S)) 0 (metric (mesh S))"
  from assms obtain c2 where c2: "memcpy ?c1 (?d * N) (newCoords S) (?d * splitCnt S) = Inr c2"
    by (cases "memcpy ?c1 (?d * N) (newCoords S) (?d * splitCnt S)")
      (simp_all add: insert_vertices_def Let_def)
  from assms c2 obtain m2 where
    m2: "memcpy ?m1 (?d * ?d * N) (newMetric S) (?d * ?d * splitCnt S) = Inr m2"
    by (cases "memcpy ?m1 (?d * ?d * N) (newMetric S) (?d * ?d * splitCnt S)")
      (simp_all add: insert_vertices_def Let_def)
  from assms c2 m2 have len: "length (newVertices S) = splitCnt S"
    by (cases "length (newVertices S) = splitCnt S") (simp_all add: insert_vertices_def Let_def)
  from assms c2 m2 len obtain re where
    re: "map_f (fix_ids [N]) (refined_edges S) = Inr re"
    by (cases "map_f (fix_ids [N]) (refined_edges S)") (simp_all add: insert_vertices_def Let_def)
  from assms c2 m2 len re have S': "S' =
      S\<lparr>mesh := (mesh S)\<lparr>coords := c2, metric := m2,
                         NEList := resize_v (N + splitCnt S) [] (NEList (mesh S)),
                         NNList := resize_v (N + splitCnt S) [] (NNList (mesh S))\<rparr>,
        node_owner := resize_v (N + splitCnt S) (- 1) (node_owner S),
        newVertices := assign_ids N (splitCnt S) (newVertices S),
        refined_edges := re\<rparr>"
    by (simp add: insert_vertices_def Let_def)
  show "lnn2gnn S' = lnn2gnn S" and "gnn2lnn S' = gnn2lnn S" and "nprocs S' = nprocs S"
    and "rank S' = rank S" and "splitCnt S' = splitCnt S"
    and "node_owner S' = resize_v (N + splitCnt S) (- 1) (node_owner S)"
    and "newVertices S' = assign_ids N (splitCnt S) (newVertices S)"
    and "length (newVertices S) = splitCnt S"
    by (simp_all add: S' len)
qed

lemma refine_element_members:
  assumes "refine_element X i S = Inr S'"
  shows "same_members S S'"
proof -
  let ?r = "if ndims (mesh S) = 2 then refine_element_2d X S (get_element (mesh S) i)
            else refine_element_3d X S (get_element (mesh S) i)"
  have "S' = S \<or> (\<exists>ch. S' = replace_element i ch S)"
  proof (cases "get_element (mesh S) i ! 0 < 0")
    case True
    with assms show ?thesis
      by (simp add: refine_element_def)
  next
    case False
    show ?thesis
    proof (cases ?r)
      case (Inl e)
      with assms False show ?thesis
        by (simp add: refine_element_def Let_def)
    next
      case (Inr oc)
      with assms False show ?thesis
        by (cases oc) (auto simp: refine_element_def Let_def)
    qed
  qed
  then show "same_members S S'"
    by (auto simp: same_members_def replace_element_def)
qed

lemma same_members_refl [simp]: "same_members S S"
  by (simp add: same_members_def)

lemma same_members_trans:
  "same_members S T \<Longrightarrow> same_members T U \<Longrightarrow> same_members S U"
  by (simp add: same_members_def)

lemma refine_elements_members:
  assumes "refine_elements X E S = Inr S'"
  shows "same_members S S'"
proof -
  from assms obtain S1 where
    f: "fold_f (refine_element X) [0..<E] (S\<lparr>splitCnt := 0\<rparr>) = Inr S1"
    by (cases "fold_f (refine_element X) [0..<E] (S\<lparr>splitCnt := 0\<rparr>)")
      (simp_all add: refine_elements_def)
  have s0: "same_members S (S\<lparr>splitCnt := 0\<rparr>)"
    by (simp add: same_members_def)
  have "same_members S S1"
  proof (rule fold_f_preserves [where P = "same_members S", OF _ s0 f])
    fix x s s'
    assume "same_members S s" and "refine_element X x s = Inr s'"
    then show "same_members S s'"
      using refine_element_members same_members_trans by blast
  qed
  moreover from assms f have "\<exists>EN. S' = S1\<lparr>mesh := (mesh S1)\<lparr>ENList := EN\<rparr>\<rparr>"
    by (auto simp: refine_elements_def Let_def split: sum.splits)
  ultimately show ?thesis
    by (auto simp: same_members_def)
qed

lemma halo_vertex_state:
  assumes "halo_vertex oN procs nj (S, w) = Inr (S', w')"
  shows "S' = S"
proof -
  obtain lut sa ra where w: "w = (lut, sa, ra)"
    by (cases w)
  from assms show ?thesis
    unfolding w by (auto split: if_splits option.splits)
qed

lemma halo_element_members:
  assumes "halo_element oN i (S, w) = Inr (S', w')"
  shows "same_members S S'"
proof -
  let ?n = "get_element (mesh S) i"
  let ?p = "sort (remdups (map (\<lambda>nj. node_owner S ! nat nj) ?n))"
  have v: "same_members S T" if "fold_f (halo_vertex oN ?p) ns (S, w) = Inr (T, u)" for ns T u
  proof -
    have "case_prod (\<lambda>T u. same_members S T) (T, u)"
    proof (rule fold_f_preserves [where P = "case_prod (\<lambda>T u. same_members S T)", OF _ _ that])
      show "case_prod (\<lambda>T u. same_members S T) (S, w)"
        by simp
    next
      fix x s s'
      assume "case_prod (\<lambda>T u. same_members S T) s" and "halo_vertex oN ?p x s = Inr s'"
      then show "case_prod (\<lambda>T u. same_members S T) s'"
        by (cases s, cases s') (auto split: if_splits option.splits)
    qed
    then show ?thesis
      by simp
  qed
  from assms consider "S' = S" | "S' = S\<lparr>mesh := erase_element (mesh S) i\<rparr>"
    | "fold_f (halo_vertex oN ?p) ?n (S, w) = Inr (S', w')"
    by (auto simp: Let_def split: if_splits)
  then show ?thesis
  proof cases
    case 1
    then show ?thesis by simp
  next
    case 2
    then show ?thesis by (simp add: same_members_def)
  next
    case 3
    then show ?thesis by (rule v)
  qed
qed

lemma numbering_lookup:
  assumes "n \<le> length l"
  shows "\<forall>a < n. \<exists>a' < n. fold (\<lambda>i g. g(l ! i \<mapsto> int i)) [0..<n] g0 (l ! a) = Some (int a')
      \<and> l ! a' = l ! a"
  using assms
proof (induction n)
  case 0
  show ?case by simp
next
  case (Suc n)
  let ?g = "fold (\<lambda>i g. g(l ! i \<mapsto> int i)) [0..<n] g0"
  have f: "fold (\<lambda>i g. g(l ! i \<mapsto> int i)) [0..<Suc n] g0 = ?g(l ! n \<mapsto> int n)"
    by simp
  show ?case
    unfolding f
  proof (intro allI impI)
    fix a
    assume a: "a < Suc n"
    show "\<exists>a' < Suc n. (?g(l ! n \<mapsto> int n)) (l ! a) = Some (int a') \<and> l ! a' = l ! a"
    proof (cases "l ! a = l ! n")
      case True
      then show ?thesis
        by (intro exI [of _ n]) simp
    next
      case False
      with a have "a < n"
        by (cases "a = n") simp_all
      moreover from Suc.prems have "n \<le> length l"
        by simp
      note Suc.IH [OF this]
      ultimately obtain a' where "a' < n" "?g (l ! a) = Some (int a')" "l ! a' = l ! a"
        by blast
      with False show ?thesis
        by (intro exI [of _ a']) simp
    qed
  qed
qed

lemma start_lookup: "lookup_wf N (lnn2gnn (start X N S)) (gnn2lnn (start X N S))"
proof -
  let ?o = "if nprocs S > 1 then mpi_scan X N - int N else 0"
  let ?l = "halo_update (halo_value X) (mesh S) (map (\<lambda>i. ?o + int i) [0..<N])"
  have l: "lnn2gnn (start X N S) = ?l"
    and g: "gnn2lnn (start X N S) = fold (\<lambda>i g. g(?l ! i \<mapsto> int i)) [0..<N] (gnn2lnn S)"
    by (simp_all add: start_def global_numbering_def Let_def)
  have "N \<le> length ?l"
    by simp
  from numbering_lookup [OF this] show ?thesis
    unfolding lookup_wf_def l g by blast
qed

lemma resize_v_length [simp]: "length (resize_v n x v) = n"
  by (simp add: resize_v_def)

lemma resize_v_nth: "j < length v \<Longrightarrow> j < n \<Longrightarrow> resize_v n x v ! j = v ! j"
  by (simp add: resize_v_def nth_append)

lemma assign_owner_step:
  assumes "assign_owner v (Q, lut) = Inr (Q', lut')" and "id_e v = Some vid"
    and "gnn2lnn Q (fst (edge v)) = Some a" and "gnn2lnn Q (snd (edge v)) = Some b"
  shows "Q' = Q\<lparr>node_owner :=
      (node_owner Q)[nat vid := min (node_owner Q ! nat a) (node_owner Q ! nat b)]\<rparr>"
  using assms by (simp add: Let_def map_at_def map_touch_def split: if_splits)

lemma assign_owner_fold:
  assumes "fold_f assign_owner vs (Q, lut) = Inr (Q', lut')"
    and "\<forall>k < length vs. id_e (vs ! k) = Some (int (t + k))"
    and "\<forall>k < length vs. \<exists>a < N. \<exists>b < N. gnn2lnn Q (fst (edge (vs ! k))) = Some (int a)
            \<and> gnn2lnn Q (snd (edge (vs ! k))) = Some (int b)"
    and "N \<le> t" and "t + length vs \<le> length (node_owner Q)"
  shows "same_members (Q\<lparr>node_owner := node_owner Q'\<rparr>) Q'
    \<and> length (node_owner Q') = length (node_owner Q)
    \<and> (\<forall>j < t. node_owner Q' ! j = node_owner Q ! j)
    \<and> (\<forall>k < length vs. node_owner Q' ! (t + k)
          = min (node_owner Q ! nat (the (gnn2lnn Q (fst (edge (vs ! k))))))
                (node_owner Q ! nat (the (gnn2lnn Q (snd (edge (vs ! k)))))))"
  using assms
proof (induction vs arbitrary: Q lut t)
  case Nil
  then show ?case
    by (simp add: same_members_def)
next
  case (Cons v vs)
  from Cons.prems(1) obtain Q1 lut1 where
    s: "assign_owner v (Q, lut) = Inr (Q1, lut1)" and r: "fold_f assign_owner vs (Q1, lut1) = Inr (Q', lut')"
    by (cases "assign_owner v (Q, lut)") auto
  from Cons.prems(2) have i0: "id_e v = Some (int t)"
    by auto
  from Cons.prems(3) obtain a b where ab: "a < N" "b < N"
    "gnn2lnn Q (fst (edge v)) = Some (int a)" "gnn2lnn Q (snd (edge v)) = Some (int b)"
    by fastforce
  let ?w = "min (node_owner Q ! a) (node_owner Q ! b)"
  from assign_owner_step [OF s i0 ab(3,4)]
  have Q1: "Q1 = Q\<lparr>node_owner := (node_owner Q)[t := ?w]\<rparr>"
    by simp
  have g1: "gnn2lnn Q1 = gnn2lnn Q" and l1: "length (node_owner Q1) = length (node_owner Q)"
    by (simp_all add: Q1)
  have ids: "\<forall>k < length vs. id_e (vs ! k) = Some (int (Suc t + k))"
  proof (intro allI impI)
    fix k
    assume "k < length vs"
    then have "Suc k < length (v # vs)"
      by simp
    with Cons.prems(2) have "id_e ((v # vs) ! Suc k) = Some (int (t + Suc k))"
      by blast
    then show "id_e (vs ! k) = Some (int (Suc t + k))"
      by simp
  qed
  have ends: "\<forall>k < length vs. \<exists>a < N. \<exists>b < N. gnn2lnn Q1 (fst (edge (vs ! k))) = Some (int a)
            \<and> gnn2lnn Q1 (snd (edge (vs ! k))) = Some (int b)"
  proof (intro allI impI)
    fix k
    assume "k < length vs"
    then have "Suc k < length (v # vs)"
      by simp
    with Cons.prems(3) have "\<exists>a < N. \<exists>b < N.
        gnn2lnn Q (fst (edge ((v # vs) ! Suc k))) = Some (int a)
        \<and> gnn2lnn Q (snd (edge ((v # vs) ! Suc k))) = Some (int b)"
      by blast
    then show "\<exists>a < N. \<exists>b < N. gnn2lnn Q1 (fst (edge (vs ! k))) = Some (int a)
            \<and> gnn2lnn Q1 (snd (edge (vs ! k))) = Some (int b)"
      by (simp add: g1)
  qed
  from Cons.prems(4) have t1: "N \<le> Suc t"
    by simp
  from Cons.prems(5) have b1: "Suc t + length vs \<le> length (node_owner Q1)"
    by (simp add: l1)
  note ih = Cons.IH [OF r ids ends t1 b1]
  from ih have m: "same_members (Q1\<lparr>node_owner := node_owner Q'\<rparr>) Q'"
    and len: "length (node_owner Q') = length (node_owner Q1)"
    and low: "\<forall>j < Suc t. node_owner Q' ! j = node_owner Q1 ! j"
    and new: "\<forall>k < length vs. node_owner Q' ! (Suc t + k)
          = min (node_owner Q1 ! nat (the (gnn2lnn Q1 (fst (edge (vs ! k))))))
                (node_owner Q1 ! nat (the (gnn2lnn Q1 (snd (edge (vs ! k))))))"
    by blast+
  from Cons.prems(5) have tl: "t < length (node_owner Q)"
    by simp
  have c1: "same_members (Q\<lparr>node_owner := node_owner Q'\<rparr>) Q'"
    using m by (simp add: same_members_def Q1)
  have c2: "length (node_owner Q') = length (node_owner Q)"
    using len l1 by simp
  have c3: "\<forall>j < t. node_owner Q' ! j = node_owner Q ! j"
    using low by (simp add: Q1)
  have c4: "node_owner Q' ! (t + k)
          = min (node_owner Q ! nat (the (gnn2lnn Q (fst (edge ((v # vs) ! k))))))
                (node_owner Q ! nat (the (gnn2lnn Q (snd (edge ((v # vs) ! k))))))"
    if k: "k < length (v # vs)" for k
  proof (cases k)
    case 0
    from low have "node_owner Q' ! t = node_owner Q1 ! t"
      by simp
    with tl show ?thesis
      by (simp add: 0 Q1 ab)
  next
    case (Suc k')
    with k have k': "k' < length vs"
      by simp
    from ends k' obtain a' b' where ab': "a' < N" "b' < N"
      "gnn2lnn Q1 (fst (edge (vs ! k'))) = Some (int a')"
      "gnn2lnn Q1 (snd (edge (vs ! k'))) = Some (int b')"
      by blast
    from ab'(1,2) Cons.prems(4) have "a' \<noteq> t" "b' \<noteq> t"
      by simp_all
    then have "node_owner Q1 ! a' = node_owner Q ! a'" "node_owner Q1 ! b' = node_owner Q ! b'"
      by (simp_all add: Q1)
    with new k' ab' show ?thesis
      by (simp add: Suc g1 [symmetric])
  qed
  from c1 c2 c3 c4 show ?case
    by blast
qed

lemma amend_halo_members:
  assumes "amend_halo oN oE NN NE S = Inr S'"
  shows "\<exists>S1 lut. fold_f assign_owner (newVertices S) (S, Map.empty) = Inr (S1, lut)
      \<and> same_members S1 S'"
proof -
  from assms obtain S1 lut where
    a: "fold_f assign_owner (newVertices S) (S, Map.empty) = Inr (S1, lut)"
    by (cases "fold_f assign_owner (newVertices S) (S, Map.empty)")
      (auto simp: amend_halo_def split: if_splits)
  let ?w = "(lut, replicate (nprocs S) [], replicate (nprocs S) [])"
  from assms a obtain S2 w2 where
    h: "fold_f (halo_element oN) [oE..<NE] (S1, ?w) = Inr (S2, w2)"
    by (cases "fold_f (halo_element oN) [oE..<NE] (S1, ?w)")
      (auto simp: amend_halo_def split: if_splits)
  have "case_prod (\<lambda>T u. same_members S1 T) (S2, w2)"
  proof (rule fold_f_preserves [where P = "case_prod (\<lambda>T u. same_members S1 T)", OF _ _ h])
    show "case_prod (\<lambda>T u. same_members S1 T) (S1, ?w)"
      by simp
  next
    fix x s s'
    assume p: "case_prod (\<lambda>T u. same_members S1 T) s" and e: "halo_element oN x s = Inr s'"
    obtain T u where s: "s = (T, u)"
      by (cases s)
    obtain T' u' where s': "s' = (T', u')"
      by (cases s')
    from e have "same_members T T'"
      unfolding s s' by (rule halo_element_members)
    with p show "case_prod (\<lambda>T u. same_members S1 T) s'"
      unfolding s s' using same_members_trans by auto
  qed
  then have m: "same_members S1 S2"
    by simp
  from assms a h have "\<exists>M. S' = S2\<lparr>mesh := M\<rparr>"
    by (auto simp: amend_halo_def split: if_splits prod.splits)
  with m have "same_members S1 S'"
    by (auto simp: same_members_def)
  with a show ?thesis
    by blast
qed

lemma finalise_members:
  assumes "finalise X oN oE S = Inr S'" and "nprocs S > 1"
  shows "\<exists>S1. amend_halo oN oE (get_number_nodes (mesh S)) (get_number_elements (mesh S)) S = Inr S1
      \<and> same_members S1 S'"
proof -
  let ?a = "amend_halo oN oE (get_number_nodes (mesh S)) (get_number_elements (mesh S)) S"
  from assms obtain S1 where a: "?a = Inr S1"
    by (cases ?a) (simp_all add: finalise_def Let_def)
  from assms a have "\<exists>M. S' = S1\<lparr>mesh := M\<rparr>"
    by (auto simp: finalise_def Let_def)
  then have "same_members S1 S'"
    by (auto simp: same_members_def)
  with a show ?thesis
    by blast
qed

lemma refine_phases:
  assumes "refine X L_max S = Some (Inr S')"
  shows "\<exists>S2 S3 S4.
      (if ndims (mesh S) = 3
       then propagate X (get_number_nodes (mesh S)) (get_number_elements (mesh S)) 0
              (select_edges X L_max (get_number_nodes (mesh S)) (start X (get_number_nodes (mesh S)) S))
       else Some (Inr (select_edges X L_max (get_number_nodes (mesh S))
              (start X (get_number_nodes (mesh S)) S)))) = Some (Inr S2)
      \<and> insert_vertices (get_number_nodes (mesh S)) S2 = Inr S3
      \<and> refine_elements X (get_number_elements (mesh S)) S3 = Inr S4
      \<and> finalise X (get_number_nodes (mesh S)) (get_number_elements (mesh S)) S4 = Inr S'"
  using assms unfolding refine_def Let_def bind_f_def
  by (auto split: option.splits sum.splits if_splits)


text \<open>
  C8 (as the code has it).  Let refine return on a partition of several (\<open>nprocs > 1\<close>),
  called on a mesh whose neighbour lists hold vertices of the mesh.  Then the new vertex
  at the position \<open>k\<close> of \<open>newVertices\<close> has the number \<open>NNodes + k\<close>, its edge is the
  pair of the global numbers of two vertices \<open>a\<close> and \<open>b\<close> of the mesh of the call, which
  are the local numbers \<open>gnn2lnn\<close> gives for the two end points, and its owner is the
  lesser of the owners of \<open>a\<close> and \<open>b\<close>.
\<close>

theorem refine_new_vertex_owner:
  assumes ret: "refine X L_max S = Some (Inr S')" and np: "nprocs S > 1"
    and wf: "neighbours_wf (mesh S)" and k: "k < length (newVertices S')"
  shows "\<exists>a b. a < get_number_nodes (mesh S) \<and> b < get_number_nodes (mesh S)
      \<and> edge (newVertices S' ! k) = (lnn2gnn S' ! a, lnn2gnn S' ! b)
      \<and> gnn2lnn S' (lnn2gnn S' ! a) = Some (int a) \<and> gnn2lnn S' (lnn2gnn S' ! b) = Some (int b)
      \<and> id_e (newVertices S' ! k) = Some (int (get_number_nodes (mesh S) + k))
      \<and> node_owner S' ! (get_number_nodes (mesh S) + k)
          = min (node_owner S' ! a) (node_owner S' ! b)"
proof -
  let ?N = "get_number_nodes (mesh S)" and ?E = "get_number_elements (mesh S)"
  let ?S0 = "start X ?N S"
  let ?S1 = "select_edges X L_max ?N ?S0"
  let ?l = "lnn2gnn ?S0" and ?g = "gnn2lnn ?S0"
  from refine_phases [OF ret] obtain S2 S3 S4 where
    p: "(if ndims (mesh S) = 3 then propagate X ?N ?E 0 ?S1 else Some (Inr ?S1)) = Some (Inr S2)"
    and i: "insert_vertices ?N S2 = Inr S3"
    and e: "refine_elements X ?E S3 = Inr S4"
    and f: "finalise X ?N ?E S4 = Inr S'"
    by blast
  have len0: "length (lnn2gnn ?S0) = ?N" and wf0: "neighbours_wf (mesh ?S0)"
    and N0: "?N = get_number_nodes (mesh ?S0)"
    by (simp_all add: wf)
  have "new_vertices_inv ?N ?S0 ?S0"
    by (simp add: new_vertices_inv_def)
  from select_edges_inv [OF this len0 wf0 N0] have inv1: "new_vertices_inv ?N ?S0 ?S1" .
  have inv2: "new_vertices_inv ?N ?S0 S2"
  proof (cases "ndims (mesh S) = 3")
    case True
    with p have "propagate X ?N ?E 0 ?S1 = Some (Inr S2)"
      by simp
    from propagate_inv [OF this inv1 len0 wf0 N0] show ?thesis .
  next
    case False
    with p inv1 show ?thesis
      by simp
  qed
  let ?cnt = "splitCnt S2"
  from inv2 have l2: "lnn2gnn S2 = ?l" and g2: "gnn2lnn S2 = ?g"
    and o2: "node_owner S2 = node_owner ?S0" and n2: "nprocs S2 = nprocs S"
    and c2: "length (newVertices S2) = ?cnt"
    and v2: "\<forall>v \<in> set (newVertices S2).
        \<exists>a b. a < ?N \<and> b < ?N \<and> edge v = (?l ! a, ?l ! b) \<and> id_e v = None"
    by (simp_all add: new_vertices_inv_def)
  note i3 = insert_vertices_fields [OF i]
  from refine_elements_members [OF e] have m4: "same_members S3 S4" .
  from m4 i3 l2 g2 n2 have l4: "lnn2gnn S4 = ?l" and g4: "gnn2lnn S4 = ?g"
    and n4: "nprocs S4 = nprocs S"
    and o4: "node_owner S4 = resize_v (?N + ?cnt) (- 1) (node_owner S2)"
    and v4: "newVertices S4 = assign_ids ?N ?cnt (newVertices S2)"
    by (simp_all add: same_members_def)
  from np n4 have "nprocs S4 > 1"
    by simp
  from finalise_members [OF f this] obtain S5 where
    a: "amend_halo ?N ?E (get_number_nodes (mesh S4)) (get_number_elements (mesh S4)) S4 = Inr S5"
    and m5: "same_members S5 S'"
    by blast
  from amend_halo_members [OF a] obtain S6 lut where
    fo: "fold_f assign_owner (newVertices S4) (S4, Map.empty) = Inr (S6, lut)"
    and m6: "same_members S6 S5"
    by blast
  from m6 m5 have m: "same_members S6 S'"
    by (rule same_members_trans)
  let ?vs = "newVertices S4"
  have lvs: "length ?vs = ?cnt"
    by (simp add: v4 assign_ids_nth(1) [OF c2])
  have vk: "?vs ! j = (newVertices S2 ! j)\<lparr>id_e := Some (int (?N + j))\<rparr>" if "j < ?cnt" for j
    using that by (simp add: v4 assign_ids_nth(2) [OF c2])
  from start_lookup [of ?N X S] have look:
    "\<forall>a < ?N. \<exists>a' < ?N. ?g (?l ! a) = Some (int a') \<and> ?l ! a' = ?l ! a"
    by (simp add: lookup_wf_def)
  have ends: "\<exists>a < ?N. \<exists>b < ?N. edge (?vs ! j) = (?l ! a, ?l ! b)
      \<and> ?g (?l ! a) = Some (int a) \<and> ?g (?l ! b) = Some (int b)" if j: "j < ?cnt" for j
  proof -
    from j c2 have "newVertices S2 ! j \<in> set (newVertices S2)"
      by simp
    with v2 obtain a b where ab: "a < ?N" "b < ?N" "edge (newVertices S2 ! j) = (?l ! a, ?l ! b)"
      by blast
    from look ab(1) obtain a' where a': "a' < ?N" "?g (?l ! a) = Some (int a')" "?l ! a' = ?l ! a"
      by blast
    from look ab(2) obtain b' where b': "b' < ?N" "?g (?l ! b) = Some (int b')" "?l ! b' = ?l ! b"
      by blast
    from ab(3) a' b' have "edge (?vs ! j) = (?l ! a', ?l ! b')
        \<and> ?g (?l ! a') = Some (int a') \<and> ?g (?l ! b') = Some (int b')"
      by (simp add: vk [OF j])
    with a'(1) b'(1) show ?thesis
      by blast
  qed
  have h1: "\<forall>j < length ?vs. id_e (?vs ! j) = Some (int (?N + j))"
    by (simp add: lvs vk)
  have h2: "\<forall>j < length ?vs. \<exists>a < ?N. \<exists>b < ?N.
      gnn2lnn S4 (fst (edge (?vs ! j))) = Some (int a)
      \<and> gnn2lnn S4 (snd (edge (?vs ! j))) = Some (int b)"
  proof (intro allI impI)
    fix j
    assume "j < length ?vs"
    then have "j < ?cnt"
      by (simp add: lvs)
    from ends [OF this] obtain a b where "a < ?N" "b < ?N" "edge (?vs ! j) = (?l ! a, ?l ! b)"
      "?g (?l ! a) = Some (int a)" "?g (?l ! b) = Some (int b)"
      by blast
    then show "\<exists>a < ?N. \<exists>b < ?N. gnn2lnn S4 (fst (edge (?vs ! j))) = Some (int a)
      \<and> gnn2lnn S4 (snd (edge (?vs ! j))) = Some (int b)"
      unfolding g4 by auto
  qed
  have h4: "?N + length ?vs \<le> length (node_owner S4)"
    by (simp add: lvs o4)
  from assign_owner_fold [OF fo h1 h2 order_refl h4]
  have m46: "same_members (S4\<lparr>node_owner := node_owner S6\<rparr>) S6"
    and low: "\<forall>j < ?N. node_owner S6 ! j = node_owner S4 ! j"
    and new: "\<forall>j < length ?vs. node_owner S6 ! (?N + j)
          = min (node_owner S4 ! nat (the (gnn2lnn S4 (fst (edge (?vs ! j))))))
                (node_owner S4 ! nat (the (gnn2lnn S4 (snd (edge (?vs ! j))))))"
    by blast+
  from m46 m l4 g4 have l': "lnn2gnn S' = ?l" and g': "gnn2lnn S' = ?g"
    and v': "newVertices S' = ?vs" and o': "node_owner S' = node_owner S6"
    by (simp_all add: same_members_def)
  from k have kc: "k < ?cnt"
    by (simp add: v' lvs)
  from ends [OF kc] obtain a b where ab: "a < ?N" "b < ?N" "edge (?vs ! k) = (?l ! a, ?l ! b)"
    "?g (?l ! a) = Some (int a)" "?g (?l ! b) = Some (int b)"
    by blast
  from new kc have "node_owner S6 ! (?N + k)
      = min (node_owner S4 ! nat (the (gnn2lnn S4 (fst (edge (?vs ! k))))))
            (node_owner S4 ! nat (the (gnn2lnn S4 (snd (edge (?vs ! k))))))"
    by (simp add: lvs)
  with ab have "node_owner S6 ! (?N + k) = min (node_owner S4 ! a) (node_owner S4 ! b)"
    by (simp add: g4)
  with low ab(1,2) have own: "node_owner S6 ! (?N + k) = min (node_owner S6 ! a) (node_owner S6 ! b)"
    by simp
  have idk: "id_e (?vs ! k) = Some (int (?N + k))"
    by (simp add: vk [OF kc])
  show ?thesis
  proof (rule exI [of _ a], rule exI [of _ b], intro conjI)
    show "a < ?N" and "b < ?N"
      by (rule ab)+
    show "edge (newVertices S' ! k) = (lnn2gnn S' ! a, lnn2gnn S' ! b)"
      unfolding v' l' by (rule ab(3))
    show "gnn2lnn S' (lnn2gnn S' ! a) = Some (int a)"
      unfolding g' l' by (rule ab(4))
    show "gnn2lnn S' (lnn2gnn S' ! b) = Some (int b)"
      unfolding g' l' by (rule ab(5))
    show "id_e (newVertices S' ! k) = Some (int (?N + k))"
      unfolding v' by (rule idk)
    show "node_owner S' ! (?N + k) = min (node_owner S' ! a) (node_owner S' ! b)"
      unfolding o' by (rule own)
  qed
qed


theorem refine_new_vertex_owner_witness:
  "nprocs two_rank_state > 1 \<and> neighbours_wf (mesh two_rank_state)
   \<and> on_return (\<lambda>S'. (2 :: nat) < length (newVertices S'))
         (refine two_rank_ext (1 / 2) two_rank_state) = Some True
   \<and> on_return (\<lambda>S'. \<exists>a b. a < 3 \<and> b < 3
           \<and> edge (newVertices S' ! 2) = (lnn2gnn S' ! a, lnn2gnn S' ! b)
           \<and> gnn2lnn S' (lnn2gnn S' ! a) = Some (int a)
           \<and> gnn2lnn S' (lnn2gnn S' ! b) = Some (int b)
           \<and> id_e (newVertices S' ! 2) = Some 5
           \<and> node_owner S' ! 5 = min (node_owner S' ! a) (node_owner S' ! b))
         (refine two_rank_ext (1 / 2) two_rank_state) = Some True"
proof -
  have h: "on_return (\<lambda>S'. (2 :: nat) < length (newVertices S'))
      (refine two_rank_ext (1 / 2) two_rank_state) = Some True"
    by code_simp
  then obtain S' where r: "refine two_rank_ext (1 / 2) two_rank_state = Some (Inr S')"
    and k: "2 < length (newVertices S')"
    by (auto simp: on_return_def split: option.splits sum.splits)
  have np: "nprocs two_rank_state > 1"
    by (simp add: two_rank_state_def)
  have wf: "neighbours_wf (mesh two_rank_state)"
    by code_simp
  have N: "get_number_nodes (mesh two_rank_state) = 3"
    by code_simp
  from refine_new_vertex_owner [OF r np wf k] h np wf show ?thesis
    by (simp add: N r on_return_def)
qed

text \<open>
  C8 as stated fails in a serial run.  On the unit triangle with one partition and the
  bound \<open>1/2\<close>, refine returns with the new vertices 3, 4 and 5 on the edges \<open>(0,1)\<close>,
  \<open>(0,2)\<close> and \<open>(1,2)\<close>; the three vertices of the call are owned by the partition 0, and the
  owner recorded for each new vertex is \<open>-1\<close>.
\<close>

theorem serial_owner_counterexample:
  "on_return newVertices (refine unit_ext (1 / 2) (serial_state unit_triangle))
     = Some [\<lparr>edge = (0, 1), id_e = Some 3\<rparr>, \<lparr>edge = (0, 2), id_e = Some 4\<rparr>,
             \<lparr>edge = (1, 2), id_e = Some 5\<rparr>]
   \<and> on_return lnn2gnn (refine unit_ext (1 / 2) (serial_state unit_triangle)) = Some [0, 1, 2]
   \<and> on_return node_owner (refine unit_ext (1 / 2) (serial_state unit_triangle))
       = Some [0, 0, 0, - 1, - 1, - 1]"
proof -
  have "on_return newVertices (refine unit_ext (1 / 2) (serial_state unit_triangle))
     = Some [\<lparr>edge = (0, 1), id_e = Some 3\<rparr>, \<lparr>edge = (0, 2), id_e = Some 4\<rparr>,
             \<lparr>edge = (1, 2), id_e = Some 5\<rparr>]"
    by code_simp
  moreover have "on_return lnn2gnn (refine unit_ext (1 / 2) (serial_state unit_triangle))
      = Some [0, 1, 2]"
    by code_simp
  moreover have "on_return node_owner (refine unit_ext (1 / 2) (serial_state unit_triangle))
       = Some [0, 0, 0, - 1, - 1, - 1]"
    by code_simp
  ultimately show ?thesis
    by simp
qed

end
